theory Spec2Isabelle
  imports Complex_Main
begin

section \<open>Numbers\<close>

text \<open>
  The component (\<^verbatim>\<open>components/p5-animation\<close>, the second document of
  \<^verbatim>\<open>src/app/layout.tsx\<close>) computes with JavaScript numbers. They are modelled as exact
  reals; the three non-finite values appear only where the source asks
  \<^verbatim>\<open>Number.isFinite\<close>: the result of \<^verbatim>\<open>Number(raw)\<close>, the argument of
  \<^verbatim>\<open>normalizeScore\<close> and the pointer coordinates. Line numbers are those of
  \<^verbatim>\<open>src/app/layout.tsx\<close>. Drawing calls are left out; what a function does to the
  variables of the sketch is kept.
\<close>

datatype jsnum = Fin real | NaN | PosInf | NegInf

text \<open>
  \<^verbatim>\<open>Number(value.toFixed(1))\<close> on a finite value: the integer \<open>n\<close> with \<open>n / 10\<close>
  closest to the magnitude, the larger one on a tie, with the sign put back; from
  \<open>10^21\<close> on \<^verbatim>\<open>toFixed\<close> prints the number itself.
\<close>

definition toFixed1 :: "real \<Rightarrow> real" where
  "toFixed1 v =
     (if 10 ^ 21 \<le> \<bar>v\<bar> then v
      else sgn v * (of_int \<lfloor>\<bar>v\<bar> * 10 + 1 / 2\<rfloor> / 10))"

definition normalizeScore :: "jsnum \<Rightarrow> real" where
  "normalizeScore v = (case v of Fin r \<Rightarrow> toFixed1 r | _ \<Rightarrow> 0)"

text \<open>\<^verbatim>\<open>p.random(lo, hi)\<close> of p5, from the raw sample \<open>u\<close> of the frame, \<open>0 \<le> u < 1\<close>.\<close>

definition p_random :: "real \<Rightarrow> real \<Rightarrow> real \<Rightarrow> real" where
  "p_random lo hi u = u * (hi - lo) + lo"

text \<open>\<^verbatim>\<open>p.dist(x1, y1, x2, y2)\<close> of p5.\<close>

definition p_dist :: "real \<Rightarrow> real \<Rightarrow> real \<Rightarrow> real \<Rightarrow> real" where
  "p_dist x1 y1 x2 y2 = sqrt ((x2 - x1)\<^sup>2 + (y2 - y1)\<^sup>2)"

text \<open>\<^verbatim>\<open>p.map(v, a, b, c, d)\<close> of p5.\<close>

definition p_map :: "real \<Rightarrow> real \<Rightarrow> real \<Rightarrow> real \<Rightarrow> real \<Rightarrow> real" where
  "p_map v a b c d = (v - a) / (b - a) * (d - c) + c"

section \<open>The browser: session storage and console\<close>

text \<open>
  The two conversions between numbers and strings are built into the language, not part
  of the component; they are parameters of the model.
\<close>

record js =
  js_Number :: "string \<Rightarrow> jsnum"
  js_toString :: "real \<Rightarrow> string"

text \<open>
  \<open>getItemCalls\<close> is a ghost counter of the \<^verbatim>\<open>sessionStorage.getItem\<close> calls made so
  far; \<open>getItemThrows\<close> and \<open>setItemThrows\<close> say whether storage access fails.
\<close>

record browser =
  items :: "string \<rightharpoonup> string"
  getItemThrows :: bool
  setItemThrows :: bool
  getItemCalls :: nat
  console :: "string list"

definition BEST_SCORE_KEY :: string where
  "BEST_SCORE_KEY = ''p5-animation-best-score''"

definition readSessionBest :: "js \<Rightarrow> browser \<Rightarrow> real \<times> browser" where
  "readSessionBest B w =
     (let w1 = w\<lparr>getItemCalls := Suc (getItemCalls w)\<rparr> in
      if getItemThrows w
      then (0, w1\<lparr>console := console w1 @ [''Unable to read session best score'']\<rparr>)
      else
        (let raw = items w1 BEST_SCORE_KEY;
             numeric = (case raw of None \<Rightarrow> Fin 0
                        | Some r \<Rightarrow> if r = [] then Fin 0 else js_Number B r)
         in ((case numeric of Fin v \<Rightarrow> v | _ \<Rightarrow> 0), w1)))"

definition writeSessionBest :: "js \<Rightarrow> real \<Rightarrow> browser \<Rightarrow> browser" where
  "writeSessionBest B v w =
     (if setItemThrows w
      then w\<lparr>console := console w @ [''Unable to persist session best score'']\<rparr>
      else w\<lparr>items := (items w)(BEST_SCORE_KEY \<mapsto> js_toString B v)\<rparr>)"

section \<open>The sketch state\<close>

record segment =
  seg_x :: real
  seg_y :: real
  seg_easeFactor :: real

record obstacle =
  ob_x :: real
  ob_y :: real
  ob_speed :: real
  ob_size :: real
  ob_drift :: real

record image =
  img_width :: real
  img_height :: real

text \<open>
  The variables the sketch closes over, the canvas size \<^verbatim>\<open>p.width\<close>, \<^verbatim>\<open>p.height\<close>,
  the HUD state of the component (\<open>hud_\<close>), its \<^verbatim>\<open>isMounted\<close> flag and the browser.
\<close>

record sketch =
  segments :: "segment list"
  headImage :: "image option"
  patternImage :: "image option"
  yearImage :: "image option"
  backgroundTexture :: "image option"
  obstacleImage :: "image option"
  gyroX :: real
  gyroY :: real
  useGyro :: bool
  flowOffset :: real
  introOverlayActive :: bool
  obstacles :: "obstacle list"
  obstacleSpawnTimer :: real
  nextObstacleDelay :: real
  score :: real
  bestScore :: real
  roundStartTime :: real
  lastHudScore :: real
  gameOver :: bool
  p_width :: real
  p_height :: real
  hud_gameOver :: bool
  hud_score :: real
  hud_bestScore :: real
  isMounted :: bool
  world :: browser

text \<open>What one animation frame reads from outside: the clock, the pointer and the raw
  random samples of the \<^verbatim>\<open>p.random\<close> calls it may make.\<close>

record frame =
  millis :: real
  deltaTime :: real
  mouseX :: jsnum
  mouseY :: jsnum
  u_size :: real
  u_x :: real
  u_speed :: real
  u_drift :: real
  u_delay :: real

datatype phase = Intro | Playing | GameOver

definition phase_of :: "sketch \<Rightarrow> phase" where
  "phase_of s =
     (if introOverlayActive s then Intro else if gameOver s then GameOver else Playing)"

section \<open>Operations\<close>

definition updateHud :: "bool option \<Rightarrow> real option \<Rightarrow> real option \<Rightarrow> sketch \<Rightarrow> sketch" where
  "updateHud g sc b s =
     (if \<not> isMounted s then s
      else s\<lparr>hud_gameOver := (case g of None \<Rightarrow> hud_gameOver s | Some v \<Rightarrow> v),
             hud_score := (case sc of None \<Rightarrow> hud_score s | Some v \<Rightarrow> v),
             hud_bestScore := (case b of None \<Rightarrow> hud_bestScore s | Some v \<Rightarrow> v)\<rparr>)"

definition numSegments :: nat where
  "numSegments = 5"

definition initSegments :: "real \<Rightarrow> real \<Rightarrow> sketch \<Rightarrow> sketch" where
  "initSegments canvasWidth canvasHeight s =
     s\<lparr>segments :=
         map (\<lambda>i. \<lparr>seg_x = canvasWidth / 2, seg_y = canvasHeight / 2,
                    seg_easeFactor = 0.16 - real i * 0.004\<rparr>) [0..<numSegments]\<rparr>"

definition spawnObstacle :: "frame \<Rightarrow> sketch \<Rightarrow> sketch" where
  "spawnObstacle f s =
     (if obstacleImage s = None then s
      else
        (let size = p_random 40 80 (u_size f) in
         s\<lparr>obstacles := obstacles s @
              [\<lparr>ob_x = p_random (size / 2) (p_width s - size / 2) (u_x f),
                ob_y = - size,
                ob_speed = p_random 1.2 2.4 (u_speed f),
                ob_size = size,
                ob_drift = p_random (- 0.4) 0.4 (u_drift f)\<rparr>]\<rparr>))"

text \<open>\<open>now\<close> is \<^verbatim>\<open>p.millis()\<close> at the call, \<open>u\<close> the raw sample of its \<^verbatim>\<open>p.random\<close>.\<close>

definition resetGame :: "real \<Rightarrow> real \<Rightarrow> sketch \<Rightarrow> sketch" where
  "resetGame now u s =
     (let s1 = s\<lparr>obstacles := [], obstacleSpawnTimer := 0,
                 nextObstacleDelay := p_random 900 1600 u, score := 0,
                 roundStartTime := now, lastHudScore := - 1, gameOver := False\<rparr>;
          s2 = initSegments (p_width s1) (p_height s1) s1
      in updateHud (Some False) (Some 0) (Some (normalizeScore (Fin (bestScore s2)))) s2)"

definition setIntroOverlayState :: "bool \<Rightarrow> real \<Rightarrow> sketch \<Rightarrow> sketch" where
  "setIntroOverlayState v u s =
     (let s1 = s\<lparr>introOverlayActive := v\<rparr> in
      if v then s1\<lparr>obstacles := []\<rparr>
      else s1\<lparr>obstacleSpawnTimer := 0, nextObstacleDelay := p_random 900 1600 u\<rparr>)"

text \<open>\<^verbatim>\<open>obstacle.y += obstacle.speed; obstacle.x += obstacle.drift\<close>.\<close>

definition moveObstacle :: "obstacle \<Rightarrow> obstacle" where
  "moveObstacle ob = ob\<lparr>ob_y := ob_y ob + ob_speed ob, ob_x := ob_x ob + ob_drift ob\<rparr>"

definition headRadius :: real where
  "headRadius = 80"

text \<open>The test of lines 315 to 317, on the obstacle as it stands after its move.\<close>

definition hits :: "segment \<Rightarrow> obstacle \<Rightarrow> bool" where
  "hits head ob =
     (let distance = p_dist (seg_x head) (seg_y head) (ob_x ob) (ob_y ob);
          obstacleRadius = ob_size ob * 0.45
      in distance < headRadius + obstacleRadius)"

text \<open>The body of the collision branch, lines 318 to 326 (the vibration of the device is
  not part of the state).\<close>

definition collisionBranch :: "js \<Rightarrow> sketch \<Rightarrow> sketch" where
  "collisionBranch B s =
     (let s1 = s\<lparr>gameOver := True\<rparr>;
          roundedScore = normalizeScore (Fin (score s1));
          s2 = s1\<lparr>score := roundedScore\<rparr>;
          s3 = (if roundedScore > bestScore s2
                then (let s' = s2\<lparr>bestScore := roundedScore\<rparr>
                      in s'\<lparr>world := writeSessionBest B (bestScore s') (world s')\<rparr>)
                else s2)
      in updateHud (Some True) (Some roundedScore) (Some (normalizeScore (Fin (bestScore s3)))) s3)"

text \<open>The test of line 330: the obstacle's upper edge \<open>y - size / 2\<close> (the image is drawn
  centred, \<open>y\<close> grows downwards) is more than 50 below the canvas.\<close>

definition offscreen :: "real \<Rightarrow> obstacle \<Rightarrow> bool" where
  "offscreen h ob = (ob_y ob - ob_size ob / 2 > h + 50)"

text \<open>One pass of the loop of lines 304 to 333 at index \<open>i\<close>; \<open>head\<close> is
  \<^verbatim>\<open>segments[0]\<close>, read once before the loop (\<open>None\<close> when there is no segment).\<close>

definition obstacleBody :: "js \<Rightarrow> segment option \<Rightarrow> nat \<Rightarrow> sketch \<Rightarrow> sketch" where
  "obstacleBody B head i s =
     (let s1 = (if \<not> gameOver s
                then s\<lparr>obstacles := (obstacles s)[i := moveObstacle (obstacles s ! i)]\<rparr>
                else s);
          ob = obstacles s1 ! i;
          s2 = (case head of
                  None \<Rightarrow> s1
                | Some h \<Rightarrow> if \<not> gameOver s1 \<and> hits h ob then collisionBranch B s1 else s1)
      in if \<not> gameOver s2 \<and> offscreen (p_height s2) ob
         then s2\<lparr>obstacles := take i (obstacles s2) @ drop (Suc i) (obstacles s2)\<rparr>
         else s2)"

text \<open>\<^verbatim>\<open>for (let i = obstacles.length - 1; i >= 0; i -= 1)\<close>: \<open>obstacleLoop B head n\<close>
  runs the indices \<open>n - 1\<close> down to \<open>0\<close>.\<close>

fun obstacleLoop :: "js \<Rightarrow> segment option \<Rightarrow> nat \<Rightarrow> sketch \<Rightarrow> sketch" where
  "obstacleLoop B head 0 s = s"
| "obstacleLoop B head (Suc i) s = obstacleLoop B head i (obstacleBody B head i s)"

text \<open>Lines 288 to 295: the spawn timer.\<close>

definition spawnTick :: "frame \<Rightarrow> sketch \<Rightarrow> sketch" where
  "spawnTick f s =
     (if \<not> gameOver s
      then
        (let s1 = s\<lparr>obstacleSpawnTimer := obstacleSpawnTimer s + deltaTime f\<rparr> in
         if obstacleSpawnTimer s1 \<ge> nextObstacleDelay s1
         then (spawnObstacle f s1)\<lparr>obstacleSpawnTimer := 0,
                 nextObstacleDelay := p_random 900 1600 (u_delay f)\<rparr>
         else s1)
      else s)"

definition headOf :: "sketch \<Rightarrow> segment option" where
  "headOf s = (case segments s of [] \<Rightarrow> None | h # _ \<Rightarrow> Some h)"

definition updateObstacles :: "js \<Rightarrow> frame \<Rightarrow> sketch \<Rightarrow> sketch" where
  "updateObstacles B f s =
     (if obstacleImage s = None \<or> introOverlayActive s then s
      else
        (let s1 = spawnTick f s
         in obstacleLoop B (headOf s1) (length (obstacles s1)) s1))"

subsection \<open>The follower chain\<close>

text \<open>\<^verbatim>\<open>curr.x += (tx - curr.x) * curr.easeFactor\<close>, the same for \<open>y\<close>; \<open>sg\<close> stands
  for \<^verbatim>\<open>curr\<close>.\<close>

definition easeToward :: "real \<Rightarrow> real \<Rightarrow> segment \<Rightarrow> segment" where
  "easeToward tx ty sg =
     sg\<lparr>seg_x := seg_x sg + (tx - seg_x sg) * seg_easeFactor sg,
          seg_y := seg_y sg + (ty - seg_y sg) * seg_easeFactor sg\<rparr>"

text \<open>One pass of the loop of lines 459 to 465, in place.\<close>

definition followBody :: "nat \<Rightarrow> segment list \<Rightarrow> segment list" where
  "followBody i segs =
     (let prev = segs ! (i - 1); sg = segs ! i
      in segs[i := easeToward (seg_x prev) (seg_y prev) sg])"

definition pointerTarget :: "jsnum \<Rightarrow> real \<Rightarrow> real" where
  "pointerTarget m centre = (case m of Fin v \<Rightarrow> if v \<ge> 0 then v else centre | _ \<Rightarrow> centre)"

text \<open>Lines 443 to 465; the caller has checked that there is a segment.\<close>

definition updateChain :: "frame \<Rightarrow> sketch \<Rightarrow> sketch" where
  "updateChain f s =
     (let targetX = (if useGyro s then gyroX s else pointerTarget (mouseX f) (p_width s / 2));
          targetY = (if useGyro s then gyroY s else pointerTarget (mouseY f) (p_height s / 2));
          segs0 = (segments s)[0 := easeToward targetX targetY (segments s ! 0)]
      in s\<lparr>segments := fold followBody [1..<length segs0] segs0\<rparr>)"

subsection \<open>The frame\<close>

text \<open>Lines 428 to 436.\<close>

definition updateScore :: "frame \<Rightarrow> sketch \<Rightarrow> sketch" where
  "updateScore f s =
     (if \<not> gameOver s
      then
        (let elapsedSeconds = max 0 ((millis f - roundStartTime s) / 1000);
             s1 = s\<lparr>score := elapsedSeconds\<rparr>;
             roundedElapsed = normalizeScore (Fin elapsedSeconds)
         in if roundedElapsed \<noteq> lastHudScore s1
            then updateHud None (Some roundedElapsed) None (s1\<lparr>lastHudScore := roundedElapsed\<rparr>)
            else s1)
      else s)"

text \<open>\<^verbatim>\<open>drawFlowingLines\<close>, as far as it changes the state.\<close>

definition drawFlowingLines :: "sketch \<Rightarrow> sketch" where
  "drawFlowingLines s =
     s\<lparr>flowOffset := flowOffset s + (if introOverlayActive s then 0.18 else 0.5)\<rparr>"

definition draw :: "js \<Rightarrow> frame \<Rightarrow> sketch \<Rightarrow> sketch" where
  "draw B f s =
     (let s1 = drawFlowingLines s;
          s2 = updateScore f s1;
          s3 = updateObstacles B f s2
      in if segments s3 = [] then s3
         else if \<not> gameOver s3 then updateChain f s3
         else s3)"

subsection \<open>Start-up, resize and sensor\<close>

text \<open>\<^verbatim>\<open>p.loadImage(path, ok, failed)\<close>: the loader \<open>ld\<close> of the drawing library gives
  what the call returns and whether it calls \<open>failed\<close>, which logs \<open>msg\<close>.\<close>

definition loadImage ::
  "(string \<Rightarrow> image option \<times> bool) \<Rightarrow> string \<Rightarrow> string \<Rightarrow> browser \<Rightarrow> image option \<times> browser" where
  "loadImage ld path msg w =
     (fst (ld path), if snd (ld path) then w\<lparr>console := console w @ [msg]\<rparr> else w)"

definition preload :: "(string \<Rightarrow> image option \<times> bool) \<Rightarrow> sketch \<Rightarrow> sketch" where
  "preload ld s =
     (let (i1, w1) = loadImage ld ''/head.png'' ''Failed to load /head.png'' (world s);
          (i2, w2) = loadImage ld ''/pattern.png'' ''Failed to load /pattern.png'' w1;
          (i3, w3) = loadImage ld ''/2025.png'' ''Failed to load /2025.png'' w2;
          (i4, w4) = loadImage ld ''/noita-digital-zcx5ztIjQAM-unsplash.jpg''
                       ''Failed to load /noita-digital-zcx5ztIjQAM-unsplash.png'' w3;
          (i5, w5) = loadImage ld ''/2026.png'' ''Failed to load /2026.png'' w4
      in s\<lparr>headImage := i1, patternImage := i2, yearImage := i3, backgroundTexture := i4,
            obstacleImage := i5, world := w5\<rparr>)"

text \<open>The state the component's effect builds: \<open>initialBestScore\<close> from the session
  storage, the HUD told of it, and the sketch's variables at their initial values (the
  canvas of the drawing library is 100 by 100 until \<^verbatim>\<open>createCanvas\<close>).\<close>

definition mount :: "js \<Rightarrow> browser \<Rightarrow> sketch" where
  "mount B w =
     (let (best, w1) = readSessionBest B w;
          initialBestScore = normalizeScore (Fin best)
      in \<lparr>segments = [], headImage = None, patternImage = None, yearImage = None,
          backgroundTexture = None, obstacleImage = None, gyroX = 0, gyroY = 0,
          useGyro = False, flowOffset = 0, introOverlayActive = True, obstacles = [],
          obstacleSpawnTimer = 0, nextObstacleDelay = 1200, score = 0,
          bestScore = initialBestScore, roundStartTime = 0, lastHudScore = - 1,
          gameOver = False, p_width = 100, p_height = 100, hud_gameOver = False,
          hud_score = 0, hud_bestScore = initialBestScore, isMounted = True, world = w1\<rparr>)"

definition canvasWidthOf :: "bool \<Rightarrow> real \<Rightarrow> real" where
  "canvasWidthOf isMobileDevice viewportWidth = (if isMobileDevice then viewportWidth else 800)"

text \<open>\<^verbatim>\<open>p.setup\<close>.\<close>

definition p_setup :: "bool \<Rightarrow> real \<Rightarrow> real \<Rightarrow> real \<Rightarrow> real \<Rightarrow> sketch \<Rightarrow> sketch" where
  "p_setup isMobileDevice viewportWidth viewportHeight now u s =
     resetGame now u
       (s\<lparr>p_width := canvasWidthOf isMobileDevice viewportWidth, p_height := viewportHeight\<rparr>)"

definition windowResized :: "bool \<Rightarrow> real \<Rightarrow> real \<Rightarrow> sketch \<Rightarrow> sketch" where
  "windowResized isMobileDevice viewportWidth viewportHeight s =
     (let canvasWidth = canvasWidthOf isMobileDevice viewportWidth;
          canvasHeight = viewportHeight
      in initSegments canvasWidth canvasHeight (s\<lparr>p_width := canvasWidth, p_height := canvasHeight\<rparr>))"

text \<open>\<^verbatim>\<open>Math.max(-90, Math.min(90, event.beta || 0))\<close>; \<open>None\<close> is \<^verbatim>\<open>null\<close>.\<close>

definition clampedAngle :: "jsnum option \<Rightarrow> real" where
  "clampedAngle a =
     (case a of None \<Rightarrow> 0 | Some NaN \<Rightarrow> 0 | Some PosInf \<Rightarrow> 90 | Some NegInf \<Rightarrow> - 90
      | Some (Fin v) \<Rightarrow> max (- 90) (min 90 v))"

definition handleOrientation :: "jsnum option \<Rightarrow> jsnum option \<Rightarrow> sketch \<Rightarrow> sketch" where
  "handleOrientation beta gamma s =
     (let clampedBeta = clampedAngle beta; clampedGamma = clampedAngle gamma
      in s\<lparr>gyroX := p_map clampedGamma (- 90) 90 0 (p_width s),
            gyroY := p_map clampedBeta (- 90) 90 0 (p_height s)\<rparr>)"

text \<open>The orientation interface of the device: absent, behind a permission request, or
  open. Behind a request the sensor is switched on when the request is granted, later.\<close>

datatype orientationApi = NoOrientation | Gated | Ungated

definition enableGyro :: "sketch \<Rightarrow> sketch" where
  "enableGyro s = s\<lparr>useGyro := True\<rparr>"

definition setupGyroSensor :: "orientationApi \<Rightarrow> sketch \<Rightarrow> sketch" where
  "setupGyroSensor api s = (if api = Ungated then enableGyro s else s)"

subsection \<open>The commands of the page\<close>

definition handleRetryClick :: "real \<Rightarrow> real \<Rightarrow> sketch \<Rightarrow> sketch" where
  "handleRetryClick now u s = resetGame now u s"

text \<open>\<^verbatim>\<open>handleStartClick\<close>; its \<^verbatim>\<open>setHasStarted(true)\<close> makes the effect of the
  component call \<^verbatim>\<open>setIntroOverlay(false)\<close> afterwards, an event of its own below.\<close>

definition handleStartClick :: "bool \<Rightarrow> orientationApi \<Rightarrow> real \<Rightarrow> real \<Rightarrow> sketch \<Rightarrow> sketch" where
  "handleStartClick isMobileDevice api now u s =
     resetGame now u (if isMobileDevice then setupGyroSensor api s else s)"

text \<open>Retry pressed again and again, each time at its clock reading \<open>now\<close> and with its
  raw random sample \<open>u\<close>.\<close>

definition retryAll :: "(real \<times> real) list \<Rightarrow> sketch \<Rightarrow> sketch" where
  "retryAll rs s = fold (\<lambda>(now, u). handleRetryClick now u) rs s"

text \<open>Everything that can happen to a mounted sketch, and a run of such events.\<close>

datatype event =
    Draw frame
  | StartClick bool orientationApi real real
  | RetryClick real real
  | SetIntroOverlay bool real
  | WindowResized bool real real
  | Orientation "jsnum option" "jsnum option"
  | PermissionGranted

fun step :: "js \<Rightarrow> event \<Rightarrow> sketch \<Rightarrow> sketch" where
  "step B (Draw f) s = draw B f s"
| "step B (StartClick m api now u) s = handleStartClick m api now u s"
| "step B (RetryClick now u) s = handleRetryClick now u s"
| "step B (SetIntroOverlay v u) s = setIntroOverlayState v u s"
| "step B (WindowResized m vw vh) s = windowResized m vw vh s"
| "step B (Orientation beta gamma) s = handleOrientation beta gamma s"
| "step B PermissionGranted s = enableGyro s"

definition run :: "js \<Rightarrow> event list \<Rightarrow> sketch \<Rightarrow> sketch" where
  "run B evs s = fold (step B) evs s"

text \<open>The sketch as the first frame finds it: mounted, assets requested, set up.\<close>

definition boot ::
  "js \<Rightarrow> browser \<Rightarrow> (string \<Rightarrow> image option \<times> bool) \<Rightarrow> bool \<Rightarrow> real \<Rightarrow> real \<Rightarrow> real \<Rightarrow> real \<Rightarrow> sketch" where
  "boot B w ld isMobileDevice viewportWidth viewportHeight now u =
     p_setup isMobileDevice viewportWidth viewportHeight now u (preload ld (mount B w))"

subsection \<open>Notions for the proofs\<close>

text \<open>Whether the obstacle, once moved, touches the head read before the loop; and what a
  pass without collision leaves of a stretch of obstacles: each one moved, those beyond
  the lower margin dropped.\<close>

definition hitBy :: "segment option \<Rightarrow> obstacle \<Rightarrow> bool" where
  "hitBy head ob = (case head of None \<Rightarrow> False | Some h \<Rightarrow> hits h (moveObstacle ob))"

definition sweep :: "real \<Rightarrow> obstacle list \<Rightarrow> obstacle list" where
  "sweep h obs = filter (\<lambda>ob. \<not> offscreen h ob) (map moveObstacle obs)"

text \<open>The lower edge of an obstacle as drawn, centred on \<open>(x, y)\<close> with height \<open>size\<close>
  (\<open>y\<close> grows downwards): the edge claim C5 speaks of.\<close>

definition lowerEdge :: "obstacle \<Rightarrow> real" where
  "lowerEdge ob = ob_y ob + ob_size ob / 2"

text \<open>The images that are only drawn, replaced; the paths and failure messages of
  \<^verbatim>\<open>p.preload\<close>; and the invariant of a sketch without obstacle image.\<close>

definition withDecor ::
  "image option \<Rightarrow> image option \<Rightarrow> image option \<Rightarrow> image option \<Rightarrow> sketch \<Rightarrow> sketch" where
  "withDecor a b c d s =
     s\<lparr>headImage := a, patternImage := b, yearImage := c, backgroundTexture := d\<rparr>"



text \<open>Two states that differ at most in the browser.\<close>

definition sameGame :: "sketch \<Rightarrow> sketch \<Rightarrow> bool" where
  "sameGame s t = (t = s\<lparr>world := world t\<rparr>)"

text \<open>The invariant of the intro phase.\<close>

definition introInv :: "sketch \<Rightarrow> bool" where
  "introInv s = (if introOverlayActive s then obstacles s = [] else True)"

text \<open>The events that reset the round, and the number of steps of a run at which the
  game-over flag goes up.\<close>

fun isReset :: "event \<Rightarrow> bool" where
  "isReset (StartClick m api now u) = True"
| "isReset (RetryClick now u) = True"
| "isReset e = False"

fun transitions :: "js \<Rightarrow> event list \<Rightarrow> sketch \<Rightarrow> nat" where
  "transitions B [] s = 0"
| "transitions B (e # es) s =
     (if \<not> gameOver s \<and> gameOver (step B e s) then 1 else 0) + transitions B es (step B e s)"

definition noReset :: "event list \<Rightarrow> bool" where
  "noReset evs = list_all (\<lambda>e. \<not> isReset e) evs"

text \<open>The state after the first \<open>k\<close> of a sequence of frames.\<close>

definition stateAt :: "js \<Rightarrow> frame list \<Rightarrow> sketch \<Rightarrow> nat \<Rightarrow> sketch" where
  "stateAt B fs s k = fold (draw B) (take k fs) s"

subsection \<open>A sample session\<close>

text \<open>
  A browser with empty storage, a loader that finds every image, and sample conversions
  for the two numbers the session stores. The page is mounted in a viewport of 1280 by
  100 on a desktop, so the canvas is 800 by 100 and the chain rests at (400, 50); the
  overlay effect runs, the player starts at 1000 ms and the overlay goes. \<open>ex_frame\<close>
  is a frame 3.4 s later with the pointer on the centre: its spawn is an obstacle of size
  40 at (400, -40), which its move brings within reach of the head.
\<close>

definition ex_js :: js where
  "ex_js = \<lparr>js_Number = (\<lambda>raw. if raw = ''3.4'' then Fin 3.4 else if raw = ''5'' then Fin 5 else NaN),
            js_toString = (\<lambda>v. if v = 3.4 then ''3.4'' else if v = 5 then ''5'' else ''0'')\<rparr>"

definition ex_browser :: browser where
  "ex_browser = \<lparr>items = Map.empty, getItemThrows = False, setItemThrows = False,
                 getItemCalls = 0, console = []\<rparr>"

definition ex_loader :: "string \<Rightarrow> image option \<times> bool" where
  "ex_loader path = (Some \<lparr>img_width = 64, img_height = 64\<rparr>, False)"

definition ex_mounted :: sketch where
  "ex_mounted = setIntroOverlayState True 0 (boot ex_js ex_browser ex_loader False 1280 100 0 0)"

definition ex_playing :: sketch where
  "ex_playing = setIntroOverlayState False 0 (handleStartClick False NoOrientation 1000 0 ex_mounted)"

definition ex_frame :: frame where
  "ex_frame = \<lparr>millis = 4400, deltaTime = 3400, mouseX = Fin 400, mouseY = Fin 50,
               u_size = 0, u_x = 1 / 2, u_speed = 0, u_drift = 0, u_delay = 0\<rparr>"

text \<open>A frame one second after the start, 16 ms after the last one, pointer on the centre:
  nothing is spawned.\<close>

definition ex_tick :: frame where
  "ex_tick = \<lparr>millis = 2000, deltaTime = 16, mouseX = Fin 400, mouseY = Fin 50,
              u_size = 0, u_x = 0, u_speed = 0, u_drift = 0, u_delay = 0\<rparr>"

definition ex_ticked :: sketch where
  "ex_ticked = draw ex_js ex_tick ex_playing"

text \<open>The same frame with the pointer at the left edge, at (0, 50).\<close>

definition ex_move :: frame where
  "ex_move = \<lparr>millis = 2000, deltaTime = 16, mouseX = Fin 0, mouseY = Fin 50,
              u_size = 0, u_x = 0, u_speed = 0, u_drift = 0, u_delay = 0\<rparr>"

text \<open>The session one frame on, with two obstacles low on the canvas (which is 100 high),
  away from the head: one of size 40 centred at height 170, one of size 80 centred at
  height 180.8.\<close>

definition ex_falling :: sketch where
  "ex_falling = ex_ticked\<lparr>obstacles :=
     [\<lparr>ob_x = 100, ob_y = 170, ob_speed = 1.2, ob_size = 40, ob_drift = 0\<rparr>,
      \<lparr>ob_x = 700, ob_y = 180.8, ob_speed = 1.2, ob_size = 80, ob_drift = 0\<rparr>]\<rparr>"



text \<open>Browsers whose storage holds a text that is no number, whose storage cannot be
  read, and the sample session when the storage refuses writes.\<close>

definition ex_browser_text :: browser where
  "ex_browser_text = ex_browser\<lparr>items := [BEST_SCORE_KEY \<mapsto> ''abc'']\<rparr>"

definition ex_browser_closed :: browser where
  "ex_browser_closed = ex_browser\<lparr>getItemThrows := True\<rparr>"

definition ex_full :: sketch where
  "ex_full = ex_playing\<lparr>world := (world ex_playing)\<lparr>setItemThrows := True\<rparr>\<rparr>"

section \<open>Basic facts\<close>

lemma updateHud_fields [simp]:
  "segments (updateHud g sc b s) = segments s"
  "obstacles (updateHud g sc b s) = obstacles s"
  "obstacleImage (updateHud g sc b s) = obstacleImage s"
  "introOverlayActive (updateHud g sc b s) = introOverlayActive s"
  "obstacleSpawnTimer (updateHud g sc b s) = obstacleSpawnTimer s"
  "nextObstacleDelay (updateHud g sc b s) = nextObstacleDelay s"
  "score (updateHud g sc b s) = score s"
  "bestScore (updateHud g sc b s) = bestScore s"
  "roundStartTime (updateHud g sc b s) = roundStartTime s"
  "lastHudScore (updateHud g sc b s) = lastHudScore s"
  "gameOver (updateHud g sc b s) = gameOver s"
  "p_width (updateHud g sc b s) = p_width s"
  "p_height (updateHud g sc b s) = p_height s"
  "useGyro (updateHud g sc b s) = useGyro s"
  "gyroX (updateHud g sc b s) = gyroX s"
  "gyroY (updateHud g sc b s) = gyroY s"
  "isMounted (updateHud g sc b s) = isMounted s"
  "world (updateHud g sc b s) = world s"
  by (simp_all add: updateHud_def)

lemma initSegments_fields [simp]:
  "obstacles (initSegments cw ch s) = obstacles s"
  "obstacleImage (initSegments cw ch s) = obstacleImage s"
  "introOverlayActive (initSegments cw ch s) = introOverlayActive s"
  "obstacleSpawnTimer (initSegments cw ch s) = obstacleSpawnTimer s"
  "nextObstacleDelay (initSegments cw ch s) = nextObstacleDelay s"
  "score (initSegments cw ch s) = score s"
  "bestScore (initSegments cw ch s) = bestScore s"
  "roundStartTime (initSegments cw ch s) = roundStartTime s"
  "lastHudScore (initSegments cw ch s) = lastHudScore s"
  "gameOver (initSegments cw ch s) = gameOver s"
  "p_width (initSegments cw ch s) = p_width s"
  "p_height (initSegments cw ch s) = p_height s"
  "isMounted (initSegments cw ch s) = isMounted s"
  "world (initSegments cw ch s) = world s"
  by (simp_all add: initSegments_def)

lemma initSegments_segments:
  "segments (initSegments cw ch s) =
     [\<lparr>seg_x = cw / 2, seg_y = ch / 2, seg_easeFactor = 0.16\<rparr>,
      \<lparr>seg_x = cw / 2, seg_y = ch / 2, seg_easeFactor = 0.156\<rparr>,
      \<lparr>seg_x = cw / 2, seg_y = ch / 2, seg_easeFactor = 0.152\<rparr>,
      \<lparr>seg_x = cw / 2, seg_y = ch / 2, seg_easeFactor = 0.148\<rparr>,
      \<lparr>seg_x = cw / 2, seg_y = ch / 2, seg_easeFactor = 0.144\<rparr>]"
  by (simp add: initSegments_def numSegments_def upt_rec [of 0] upt_rec [of 1] upt_rec [of 2]
      upt_rec [of 3] upt_rec [of 4] eval_nat_numeral)

subsection \<open>The follower loop\<close>

lemma followBody_length [simp]: "length (followBody i segs) = length segs"
  by (simp add: followBody_def Let_def)

lemma fold_followBody:
  "n \<le> length segs \<Longrightarrow>
   length (fold followBody [1..<n] segs) = length segs \<and>
   (\<forall>i < length segs. fold followBody [1..<n] segs ! i =
      (if 1 \<le> i \<and> i < n
       then easeToward (seg_x (fold followBody [1..<n] segs ! (i - 1)))
              (seg_y (fold followBody [1..<n] segs ! (i - 1))) (segs ! i)
       else segs ! i))"
proof (induction n)
  case 0
  then show ?case by simp
next
  case (Suc n)
  show ?case
  proof (cases "n = 0")
    case True
    then show ?thesis by simp
  next
    case False
    then have up: "[1..<Suc n] = [1..<n] @ [n]" by simp
    define r where "r = fold followBody [1..<n] segs"
    from Suc have len: "length r = length segs"
      and nth: "\<And>i. i < length segs \<Longrightarrow> r ! i =
        (if 1 \<le> i \<and> i < n
         then easeToward (seg_x (r ! (i - 1))) (seg_y (r ! (i - 1))) (segs ! i)
         else segs ! i)"
      by (simp_all add: r_def)
    have n: "n < length segs" using Suc.prems by simp
    have r': "fold followBody [1..<Suc n] segs = r[n := easeToward (seg_x (r ! (n - 1))) (seg_y (r ! (n - 1))) (r ! n)]"
      by (simp only: up fold_append fold_simps comp_apply r_def followBody_def Let_def)
    have rn: "r ! n = segs ! n" using nth [OF n] by simp
    have "fold followBody [1..<Suc n] segs ! i =
      (if 1 \<le> i \<and> i < Suc n
       then easeToward (seg_x (fold followBody [1..<Suc n] segs ! (i - 1)))
              (seg_y (fold followBody [1..<Suc n] segs ! (i - 1))) (segs ! i)
       else segs ! i)" if i: "i < length segs" for i
    proof -
      consider "i < n" | "i = n" | "n < i" by linarith
      then show ?thesis
      proof cases
        case 1
        then have "r[n := easeToward (seg_x (r ! (n - 1))) (seg_y (r ! (n - 1))) (r ! n)] ! i = r ! i"
          and "r[n := easeToward (seg_x (r ! (n - 1))) (seg_y (r ! (n - 1))) (r ! n)] ! (i - 1) = r ! (i - 1)"
          by simp_all
        with 1 nth [OF i] show ?thesis unfolding r' by simp
      next
        case 2
        with False have "r[n := easeToward (seg_x (r ! (n - 1))) (seg_y (r ! (n - 1))) (r ! n)] ! (i - 1) = r ! (n - 1)"
          by simp
        moreover have "r[n := easeToward (seg_x (r ! (n - 1))) (seg_y (r ! (n - 1))) (r ! n)] ! i
            = easeToward (seg_x (r ! (n - 1))) (seg_y (r ! (n - 1))) (r ! n)"
          using 2 n len by simp
        ultimately show ?thesis unfolding r' using 2 False rn by simp
      next
        case 3
        then have "r[n := easeToward (seg_x (r ! (n - 1))) (seg_y (r ! (n - 1))) (r ! n)] ! i = r ! i"
          by simp
        with 3 nth [OF i] show ?thesis unfolding r' by simp
      qed
    qed
    moreover have "length (fold followBody [1..<Suc n] segs) = length segs"
      unfolding r' using len by simp
    ultimately show ?thesis by blast
  qed
qed

subsection \<open>The obstacle loop\<close>

lemma collisionBranch_fields [simp]:
  "gameOver (collisionBranch B s) = True"
  "obstacles (collisionBranch B s) = obstacles s"
  "segments (collisionBranch B s) = segments s"
  "obstacleImage (collisionBranch B s) = obstacleImage s"
  "introOverlayActive (collisionBranch B s) = introOverlayActive s"
  "obstacleSpawnTimer (collisionBranch B s) = obstacleSpawnTimer s"
  "nextObstacleDelay (collisionBranch B s) = nextObstacleDelay s"
  "roundStartTime (collisionBranch B s) = roundStartTime s"
  "lastHudScore (collisionBranch B s) = lastHudScore s"
  "p_width (collisionBranch B s) = p_width s"
  "p_height (collisionBranch B s) = p_height s"
  "useGyro (collisionBranch B s) = useGyro s"
  "gyroX (collisionBranch B s) = gyroX s"
  "gyroY (collisionBranch B s) = gyroY s"
  "isMounted (collisionBranch B s) = isMounted s"
  "score (collisionBranch B s) = normalizeScore (Fin (score s))"
  "bestScore (collisionBranch B s) = max (bestScore s) (normalizeScore (Fin (score s)))"
  by (simp_all add: collisionBranch_def Let_def)

lemma collisionBranch_world:
  "world (collisionBranch B s) =
     (if normalizeScore (Fin (score s)) > bestScore s
      then writeSessionBest B (normalizeScore (Fin (score s))) (world s) else world s)"
  by (simp add: collisionBranch_def Let_def)

lemma collisionBranch_obstacles_update:
  "collisionBranch B (s\<lparr>obstacles := xs\<rparr>) = (collisionBranch B s)\<lparr>obstacles := xs\<rparr>"
  by (simp add: collisionBranch_def Let_def updateHud_def)

lemma obstacleBody_gameOver: "gameOver s \<Longrightarrow> obstacleBody B head i s = s"
  by (cases head) (simp_all add: obstacleBody_def Let_def)

lemma obstacleLoop_gameOver: "gameOver s \<Longrightarrow> obstacleLoop B head n s = s"
  by (induction n) (simp_all add: obstacleBody_gameOver)

lemma obstacleBody_hit:
  "\<not> gameOver s \<Longrightarrow> hitBy head (obstacles s ! i) \<Longrightarrow>
   obstacleBody B head i s =
     collisionBranch B (s\<lparr>obstacles := (obstacles s)[i := moveObstacle (obstacles s ! i)]\<rparr>)"
  if "i < length (obstacles s)"
  using that by (cases head) (simp_all add: obstacleBody_def Let_def hitBy_def)

lemma obstacleBody_miss:
  assumes "\<not> gameOver s" "\<not> hitBy head (obstacles s ! i)" "i < length (obstacles s)"
  shows "obstacleBody B head i s =
     s\<lparr>obstacles := take i (obstacles s) @
          (if offscreen (p_height s) (moveObstacle (obstacles s ! i)) then []
           else [moveObstacle (obstacles s ! i)]) @ drop (Suc i) (obstacles s)\<rparr>"
proof -
  define o' where "o' = moveObstacle (obstacles s ! i)"
  have "obstacleBody B head i s =
      (if offscreen (p_height s) o'
       then s\<lparr>obstacles := take i ((obstacles s)[i := o']) @ drop (Suc i) ((obstacles s)[i := o'])\<rparr>
       else s\<lparr>obstacles := (obstacles s)[i := o']\<rparr>)"
    using assms by (cases head) (simp_all add: obstacleBody_def Let_def hitBy_def o'_def)
  also have "\<dots> = s\<lparr>obstacles := take i (obstacles s) @
          (if offscreen (p_height s) o' then [] else [o']) @ drop (Suc i) (obstacles s)\<rparr>"
    using assms(3) by (simp add: upd_conv_take_nth_drop)
  finally show ?thesis by (simp add: o'_def)
qed

lemma obstacleLoop_fold:
  "obstacleLoop B head n s = fold (obstacleBody B head) (rev [0..<n]) s"
  by (induction n arbitrary: s) simp_all

lemma sweep_range:
  "\<not> gameOver s \<Longrightarrow> m \<le> n \<Longrightarrow> n \<le> length (obstacles s) \<Longrightarrow>
   (\<forall>k. m \<le> k \<and> k < n \<longrightarrow> \<not> hitBy head (obstacles s ! k)) \<Longrightarrow>
   fold (obstacleBody B head) (rev [m..<n]) s =
     s\<lparr>obstacles := take m (obstacles s) @
          sweep (p_height s) (drop m (take n (obstacles s))) @ drop n (obstacles s)\<rparr>"
proof (induction n arbitrary: s)
  case 0
  then show ?case by (simp add: sweep_def)
next
  case (Suc n)
  show ?case
  proof (cases "m = Suc n")
    case True
    then show ?thesis by (simp add: sweep_def)
  next
    case False
    with Suc.prems have mn: "m \<le> n" and n: "n < length (obstacles s)" by simp_all
    define obs where "obs = obstacles s"
    define o' where "o' = moveObstacle (obs ! n)"
    define keep where "keep = (if offscreen (p_height s) o' then [] else [o'])"
    define s' where "s' = s\<lparr>obstacles := take n obs @ keep @ drop (Suc n) obs\<rparr>"
    have nh: "\<not> hitBy head (obstacles s ! n)"
      using Suc.prems(4) mn by simp
    have body: "obstacleBody B head n s = s'"
      unfolding obstacleBody_miss [OF Suc.prems(1) nh n]
      by (simp add: s'_def keep_def o'_def obs_def)
    have tk: "take n (obstacles s') = take n obs" "take m (obstacles s') = take m obs"
      using n mn by (simp_all add: s'_def obs_def)
    have dr: "drop n (obstacles s') = keep @ drop (Suc n) obs"
      using n by (simp add: s'_def obs_def)
    have nth: "obstacles s' ! k = obs ! k" if "k < n" for k
      using that n by (simp add: s'_def obs_def nth_append)
    have ih: "fold (obstacleBody B head) (rev [m..<n]) s' =
        s'\<lparr>obstacles := take m (obstacles s') @
          sweep (p_height s') (drop m (take n (obstacles s'))) @ drop n (obstacles s')\<rparr>"
    proof (rule Suc.IH)
      show "\<not> gameOver s'" using Suc.prems by (simp add: s'_def)
      show "m \<le> n" by (rule mn)
      show "n \<le> length (obstacles s')" using n by (simp add: s'_def obs_def)
      show "\<forall>k. m \<le> k \<and> k < n \<longrightarrow> \<not> hitBy head (obstacles s' ! k)"
        using Suc.prems(4) nth by (simp add: obs_def)
    qed
    have split: "drop m (take (Suc n) obs) = drop m (take n obs) @ [obs ! n]"
      using n mn by (simp add: take_Suc_conv_app_nth obs_def)
    have sw: "sweep (p_height s) (drop m (take (Suc n) obs)) =
        sweep (p_height s) (drop m (take n obs)) @ keep"
      by (simp add: split sweep_def keep_def o'_def)
    have "fold (obstacleBody B head) (rev [m..<Suc n]) s =
        fold (obstacleBody B head) (rev [m..<n]) s'"
      using mn body by simp
    also have "\<dots> = s\<lparr>obstacles := take m obs @
          sweep (p_height s) (drop m (take (Suc n) obs)) @ drop (Suc n) obs\<rparr>"
      unfolding ih tk dr sw by (simp add: s'_def)
    finally show ?thesis by (simp add: obs_def)
  qed
qed

lemma obstacleLoop_no_hit:
  assumes "\<not> gameOver s" "n \<le> length (obstacles s)"
    and "\<forall>k < n. \<not> hitBy head (obstacles s ! k)"
  shows "obstacleLoop B head n s =
     s\<lparr>obstacles := sweep (p_height s) (take n (obstacles s)) @ drop n (obstacles s)\<rparr>"
  using sweep_range [of s 0 n head B] assms by (simp add: obstacleLoop_fold)

lemma obstacleLoop_first_hit:
  assumes ng: "\<not> gameOver s" and jn: "j < n" and n: "n \<le> length (obstacles s)"
    and hit: "hitBy head (obstacles s ! j)"
    and first: "\<forall>k. j < k \<and> k < n \<longrightarrow> \<not> hitBy head (obstacles s ! k)"
  shows "obstacleLoop B head n s =
     collisionBranch B
       (s\<lparr>obstacles := take j (obstacles s) @ [moveObstacle (obstacles s ! j)] @
            sweep (p_height s) (drop (Suc j) (take n (obstacles s))) @ drop n (obstacles s)\<rparr>)"
proof -
  define obs where "obs = obstacles s"
  define s1 where "s1 = s\<lparr>obstacles := take (Suc j) obs @
          sweep (p_height s) (drop (Suc j) (take n obs)) @ drop n obs\<rparr>"
  have upt: "rev [0..<n] = rev [Suc j..<n] @ j # rev [0..<j]"
  proof -
    have "[0..<n] = [0..<j] @ [j..<n]"
      using jn upt_add_eq_append [of 0 j "n - j"] by simp
    then have "[0..<n] = [0..<j] @ j # [Suc j..<n]"
      using jn by (simp add: upt_conv_Cons)
    then show ?thesis by simp
  qed
  have a: "fold (obstacleBody B head) (rev [Suc j..<n]) s = s1"
    using sweep_range [of s "Suc j" n head B] ng jn n first
    by (simp add: s1_def obs_def)
  have j: "j < length obs" using jn n by (simp add: obs_def)
  have s1j: "obstacles s1 ! j = obs ! j" "j < length (obstacles s1)"
    using j by (simp_all add: s1_def nth_append)
  have b: "obstacleBody B head j s1 =
      collisionBranch B (s1\<lparr>obstacles := (obstacles s1)[j := moveObstacle (obs ! j)]\<rparr>)"
    using obstacleBody_hit [of j s1 head B] s1j ng hit by (simp add: s1_def obs_def)
  have upd: "(obstacles s1)[j := moveObstacle (obs ! j)] =
      take j obs @ [moveObstacle (obs ! j)] @
        sweep (p_height s) (drop (Suc j) (take n obs)) @ drop n obs"
    using j by (simp add: s1_def take_Suc_conv_app_nth list_update_append)
  have "obstacleLoop B head n s =
      fold (obstacleBody B head) (rev [0..<j]) (obstacleBody B head j s1)"
    by (simp add: obstacleLoop_fold upt a)
  also have "\<dots> = obstacleBody B head j s1"
    using obstacleLoop_gameOver [of "obstacleBody B head j s1" B head j]
    by (simp add: obstacleLoop_fold b)
  finally show ?thesis
    unfolding b upd by (simp add: s1_def obs_def)
qed


lemma last_index:
  "(\<exists>k < (n::nat). P k) \<Longrightarrow> (\<exists>j < n. P j \<and> (\<forall>k. j < k \<and> k < n \<longrightarrow> \<not> P k))"
proof (induction n)
  case 0
  then show ?case by simp
next
  case (Suc n)
  show ?case
  proof (cases "P n")
    case True
    then show ?thesis by (intro exI [of _ n]) auto
  next
    case False
    with Suc.prems have "\<exists>k < n. P k" by (auto simp: less_Suc_eq)
    from Suc.IH [OF this] obtain j where j: "j < n" "P j" "\<forall>k. j < k \<and> k < n \<longrightarrow> \<not> P k"
      by blast
    show ?thesis
    proof (intro exI [of _ j] conjI allI impI)
      show "j < Suc n" using j by simp
      show "P j" by (rule j)
      fix k assume "j < k \<and> k < Suc n"
      then show "\<not> P k" using j(3) False by (cases "k = n") auto
    qed
  qed
qed

subsection \<open>The obstacle pass of a frame\<close>

lemma updateScore_eq:
  "updateScore f s =
     (if gameOver s then s
      else s\<lparr>score := max 0 ((millis f - roundStartTime s) / 1000),
             lastHudScore := normalizeScore (Fin (max 0 ((millis f - roundStartTime s) / 1000))),
             hud_score :=
               (if isMounted s \<and>
                   normalizeScore (Fin (max 0 ((millis f - roundStartTime s) / 1000))) \<noteq> lastHudScore s
                then normalizeScore (Fin (max 0 ((millis f - roundStartTime s) / 1000)))
                else hud_score s)\<rparr>)"
  by (simp add: updateScore_def Let_def updateHud_def)

lemma spawnTick_fields [simp]:
  "gameOver (spawnTick f s) = gameOver s"
  "segments (spawnTick f s) = segments s"
  "obstacleImage (spawnTick f s) = obstacleImage s"
  "introOverlayActive (spawnTick f s) = introOverlayActive s"
  "score (spawnTick f s) = score s"
  "bestScore (spawnTick f s) = bestScore s"
  "roundStartTime (spawnTick f s) = roundStartTime s"
  "lastHudScore (spawnTick f s) = lastHudScore s"
  "p_width (spawnTick f s) = p_width s"
  "p_height (spawnTick f s) = p_height s"
  "useGyro (spawnTick f s) = useGyro s"
  "gyroX (spawnTick f s) = gyroX s"
  "gyroY (spawnTick f s) = gyroY s"
  "isMounted (spawnTick f s) = isMounted s"
  "hud_score (spawnTick f s) = hud_score s"
  "hud_bestScore (spawnTick f s) = hud_bestScore s"
  "hud_gameOver (spawnTick f s) = hud_gameOver s"
  "world (spawnTick f s) = world s"
  by (simp_all add: spawnTick_def spawnObstacle_def Let_def)

lemma spawnTick_gameOver: "gameOver s \<Longrightarrow> spawnTick f s = s"
  by (simp add: spawnTick_def)

lemma headOf_spawnTick [simp]: "headOf (spawnTick f s) = headOf s"
  by (simp add: headOf_def)

text \<open>What the obstacle pass of a frame comes to, while the round is on.\<close>

lemma updateObstacles_idle:
  "obstacleImage s = None \<or> introOverlayActive s \<or> gameOver s \<Longrightarrow> updateObstacles B f s = s"
  by (auto simp: updateObstacles_def Let_def spawnTick_gameOver obstacleLoop_gameOver)

lemma updateObstacles_no_hit:
  assumes "obstacleImage s \<noteq> None" "\<not> introOverlayActive s" "\<not> gameOver s"
    and "\<forall>ob \<in> set (obstacles (spawnTick f s)). \<not> hitBy (headOf s) ob"
  shows "updateObstacles B f s =
     (spawnTick f s)\<lparr>obstacles := sweep (p_height s) (obstacles (spawnTick f s))\<rparr>"
proof -
  have "obstacleLoop B (headOf s) (length (obstacles (spawnTick f s))) (spawnTick f s) =
      (spawnTick f s)\<lparr>obstacles := sweep (p_height (spawnTick f s))
          (take (length (obstacles (spawnTick f s))) (obstacles (spawnTick f s))) @
        drop (length (obstacles (spawnTick f s))) (obstacles (spawnTick f s))\<rparr>"
    using assms by (intro obstacleLoop_no_hit) simp_all
  then show ?thesis using assms by (auto simp add: updateObstacles_def Let_def)
qed

lemma updateObstacles_first_hit:
  assumes "obstacleImage s \<noteq> None" "\<not> introOverlayActive s" "\<not> gameOver s"
    and "j < length (obstacles (spawnTick f s))"
    and "hitBy (headOf s) (obstacles (spawnTick f s) ! j)"
    and "\<forall>k. j < k \<and> k < length (obstacles (spawnTick f s)) \<longrightarrow>
           \<not> hitBy (headOf s) (obstacles (spawnTick f s) ! k)"
  shows "updateObstacles B f s =
     collisionBranch B
       ((spawnTick f s)\<lparr>obstacles :=
           take j (obstacles (spawnTick f s)) @ [moveObstacle (obstacles (spawnTick f s) ! j)] @
           sweep (p_height s) (drop (Suc j) (obstacles (spawnTick f s)))\<rparr>)"
proof -
  have "obstacleLoop B (headOf s) (length (obstacles (spawnTick f s))) (spawnTick f s) =
     collisionBranch B
       ((spawnTick f s)\<lparr>obstacles := take j (obstacles (spawnTick f s)) @
            [moveObstacle (obstacles (spawnTick f s) ! j)] @
            sweep (p_height (spawnTick f s))
              (drop (Suc j) (take (length (obstacles (spawnTick f s))) (obstacles (spawnTick f s)))) @
            drop (length (obstacles (spawnTick f s))) (obstacles (spawnTick f s))\<rparr>)"
    using assms by (intro obstacleLoop_first_hit) simp_all
  then show ?thesis using assms by (auto simp add: updateObstacles_def Let_def)
qed

lemma updateObstacles_gameOver_iff:
  assumes "obstacleImage s \<noteq> None" "\<not> introOverlayActive s" "\<not> gameOver s"
  shows "gameOver (updateObstacles B f s) \<longleftrightarrow>
     (\<exists>ob \<in> set (obstacles (spawnTick f s)). hitBy (headOf s) ob)"
proof (cases "\<exists>ob \<in> set (obstacles (spawnTick f s)). hitBy (headOf s) ob")
  case False
  then show ?thesis using updateObstacles_no_hit [OF assms, of f B] assms by simp
next
  case True
  then have "\<exists>k < length (obstacles (spawnTick f s)). hitBy (headOf s) (obstacles (spawnTick f s) ! k)"
    by (auto simp: in_set_conv_nth)
  from last_index [OF this] obtain j where "j < length (obstacles (spawnTick f s))"
      "hitBy (headOf s) (obstacles (spawnTick f s) ! j)"
      "\<forall>k. j < k \<and> k < length (obstacles (spawnTick f s)) \<longrightarrow>
           \<not> hitBy (headOf s) (obstacles (spawnTick f s) ! k)"
    by blast
  from updateObstacles_first_hit [OF assms this, of B] True show ?thesis by simp
qed

lemma draw_eq:
  "draw B f s =
     (if segments (updateObstacles B f (updateScore f (drawFlowingLines s))) = [] \<or>
         gameOver (updateObstacles B f (updateScore f (drawFlowingLines s)))
      then updateObstacles B f (updateScore f (drawFlowingLines s))
      else updateChain f (updateObstacles B f (updateScore f (drawFlowingLines s))))"
  by (simp add: draw_def Let_def)

text \<open>The outcomes of the obstacle pass: nothing, the field swept, or the collision
  branch run once.\<close>

lemma updateObstacles_cases:
  "updateObstacles B f s = s \<or>
   (\<not> gameOver s \<and> gameOver (updateObstacles B f s) \<and>
      (\<exists>xs. updateObstacles B f s = collisionBranch B ((spawnTick f s)\<lparr>obstacles := xs\<rparr>))) \<or>
   (\<not> gameOver s \<and> \<not> gameOver (updateObstacles B f s) \<and>
      (\<exists>xs. updateObstacles B f s = (spawnTick f s)\<lparr>obstacles := xs\<rparr>))"
proof (cases "obstacleImage s = None \<or> introOverlayActive s \<or> gameOver s")
  case True
  then show ?thesis using updateObstacles_idle [OF True, of B f] by simp
next
  case False
  then have act: "obstacleImage s \<noteq> None" "\<not> introOverlayActive s" "\<not> gameOver s" by simp_all
  show ?thesis
  proof (cases "\<exists>ob \<in> set (obstacles (spawnTick f s)). hitBy (headOf s) ob")
    case False
    then have "updateObstacles B f s =
        (spawnTick f s)\<lparr>obstacles := sweep (p_height s) (obstacles (spawnTick f s))\<rparr>"
      using updateObstacles_no_hit [OF act, of f B] by simp
    then have "\<exists>xs. updateObstacles B f s = (spawnTick f s)\<lparr>obstacles := xs\<rparr>"
      by blast
    moreover have "\<not> gameOver (updateObstacles B f s)"
      using updateObstacles_gameOver_iff [OF act, of B f] False by simp
    ultimately show ?thesis using act(3) by blast
  next
    case True
    then have "\<exists>k < length (obstacles (spawnTick f s)). hitBy (headOf s) (obstacles (spawnTick f s) ! k)"
      by (auto simp: in_set_conv_nth)
    from last_index [OF this] obtain j where "j < length (obstacles (spawnTick f s))"
      "hitBy (headOf s) (obstacles (spawnTick f s) ! j)"
      "\<forall>k. j < k \<and> k < length (obstacles (spawnTick f s)) \<longrightarrow>
           \<not> hitBy (headOf s) (obstacles (spawnTick f s) ! k)"
      by blast
    from updateObstacles_first_hit [OF act this, of B]
    have "\<exists>xs. updateObstacles B f s = collisionBranch B ((spawnTick f s)\<lparr>obstacles := xs\<rparr>)"
      by blast
    moreover have "gameOver (updateObstacles B f s)"
      using updateObstacles_gameOver_iff [OF act, of B f] True by simp
    ultimately show ?thesis using act(3) by blast
  qed
qed

lemma updateObstacles_fields [simp]:
  "segments (updateObstacles B f s) = segments s"
  "obstacleImage (updateObstacles B f s) = obstacleImage s"
  "introOverlayActive (updateObstacles B f s) = introOverlayActive s"
  "roundStartTime (updateObstacles B f s) = roundStartTime s"
  "lastHudScore (updateObstacles B f s) = lastHudScore s"
  "p_width (updateObstacles B f s) = p_width s"
  "p_height (updateObstacles B f s) = p_height s"
  "useGyro (updateObstacles B f s) = useGyro s"
  "gyroX (updateObstacles B f s) = gyroX s"
  "gyroY (updateObstacles B f s) = gyroY s"
  "isMounted (updateObstacles B f s) = isMounted s"
  using updateObstacles_cases [of B f s] by auto

lemma updateObstacles_sticky: "gameOver s \<Longrightarrow> gameOver (updateObstacles B f s)"
  by (simp add: updateObstacles_idle)

lemma updateObstacles_playing:
  "\<not> gameOver (updateObstacles B f s) \<Longrightarrow>
   score (updateObstacles B f s) = score s \<and> bestScore (updateObstacles B f s) = bestScore s \<and>
   world (updateObstacles B f s) = world s \<and> hud_score (updateObstacles B f s) = hud_score s \<and>
   hud_bestScore (updateObstacles B f s) = hud_bestScore s \<and>
   hud_gameOver (updateObstacles B f s) = hud_gameOver s"
  using updateObstacles_cases [of B f s] by auto

lemma updateObstacles_collision:
  "\<not> gameOver s \<Longrightarrow> gameOver (updateObstacles B f s) \<Longrightarrow>
   score (updateObstacles B f s) = normalizeScore (Fin (score s)) \<and>
   bestScore (updateObstacles B f s) = max (bestScore s) (normalizeScore (Fin (score s))) \<and>
   world (updateObstacles B f s) =
     (if normalizeScore (Fin (score s)) > bestScore s
      then writeSessionBest B (normalizeScore (Fin (score s))) (world s) else world s)"
  using updateObstacles_cases [of B f s] by (auto simp: collisionBranch_world)

subsection \<open>The frame\<close>

lemma updateScore_fields [simp]:
  "gameOver (updateScore f s) = gameOver s"
  "segments (updateScore f s) = segments s"
  "obstacles (updateScore f s) = obstacles s"
  "obstacleImage (updateScore f s) = obstacleImage s"
  "introOverlayActive (updateScore f s) = introOverlayActive s"
  "obstacleSpawnTimer (updateScore f s) = obstacleSpawnTimer s"
  "nextObstacleDelay (updateScore f s) = nextObstacleDelay s"
  "bestScore (updateScore f s) = bestScore s"
  "roundStartTime (updateScore f s) = roundStartTime s"
  "p_width (updateScore f s) = p_width s"
  "p_height (updateScore f s) = p_height s"
  "useGyro (updateScore f s) = useGyro s"
  "gyroX (updateScore f s) = gyroX s"
  "gyroY (updateScore f s) = gyroY s"
  "isMounted (updateScore f s) = isMounted s"
  "hud_bestScore (updateScore f s) = hud_bestScore s"
  "hud_gameOver (updateScore f s) = hud_gameOver s"
  "world (updateScore f s) = world s"
  by (simp_all add: updateScore_eq)

lemma updateScore_score:
  "score (updateScore f s) =
     (if gameOver s then score s else max 0 ((millis f - roundStartTime s) / 1000))"
  "lastHudScore (updateScore f s) =
     (if gameOver s then lastHudScore s
      else normalizeScore (Fin (max 0 ((millis f - roundStartTime s) / 1000))))"
  by (simp_all add: updateScore_eq)

lemma drawFlowingLines_fields [simp]:
  "gameOver (drawFlowingLines s) = gameOver s"
  "segments (drawFlowingLines s) = segments s"
  "obstacles (drawFlowingLines s) = obstacles s"
  "obstacleImage (drawFlowingLines s) = obstacleImage s"
  "introOverlayActive (drawFlowingLines s) = introOverlayActive s"
  "obstacleSpawnTimer (drawFlowingLines s) = obstacleSpawnTimer s"
  "nextObstacleDelay (drawFlowingLines s) = nextObstacleDelay s"
  "score (drawFlowingLines s) = score s"
  "bestScore (drawFlowingLines s) = bestScore s"
  "roundStartTime (drawFlowingLines s) = roundStartTime s"
  "lastHudScore (drawFlowingLines s) = lastHudScore s"
  "p_width (drawFlowingLines s) = p_width s"
  "p_height (drawFlowingLines s) = p_height s"
  "useGyro (drawFlowingLines s) = useGyro s"
  "gyroX (drawFlowingLines s) = gyroX s"
  "gyroY (drawFlowingLines s) = gyroY s"
  "isMounted (drawFlowingLines s) = isMounted s"
  "hud_score (drawFlowingLines s) = hud_score s"
  "hud_bestScore (drawFlowingLines s) = hud_bestScore s"
  "hud_gameOver (drawFlowingLines s) = hud_gameOver s"
  "world (drawFlowingLines s) = world s"
  by (simp_all add: drawFlowingLines_def)

lemma updateChain_fields [simp]:
  "gameOver (updateChain f s) = gameOver s"
  "obstacles (updateChain f s) = obstacles s"
  "obstacleImage (updateChain f s) = obstacleImage s"
  "introOverlayActive (updateChain f s) = introOverlayActive s"
  "obstacleSpawnTimer (updateChain f s) = obstacleSpawnTimer s"
  "nextObstacleDelay (updateChain f s) = nextObstacleDelay s"
  "score (updateChain f s) = score s"
  "bestScore (updateChain f s) = bestScore s"
  "roundStartTime (updateChain f s) = roundStartTime s"
  "lastHudScore (updateChain f s) = lastHudScore s"
  "p_width (updateChain f s) = p_width s"
  "p_height (updateChain f s) = p_height s"
  "useGyro (updateChain f s) = useGyro s"
  "gyroX (updateChain f s) = gyroX s"
  "gyroY (updateChain f s) = gyroY s"
  "isMounted (updateChain f s) = isMounted s"
  "hud_score (updateChain f s) = hud_score s"
  "hud_bestScore (updateChain f s) = hud_bestScore s"
  "hud_gameOver (updateChain f s) = hud_gameOver s"
  "world (updateChain f s) = world s"
  by (simp_all add: updateChain_def Let_def)

lemma draw_fields [simp]:
  "obstacleImage (draw B f s) = obstacleImage s"
  "introOverlayActive (draw B f s) = introOverlayActive s"
  "roundStartTime (draw B f s) = roundStartTime s"
  "p_width (draw B f s) = p_width s"
  "p_height (draw B f s) = p_height s"
  "useGyro (draw B f s) = useGyro s"
  "gyroX (draw B f s) = gyroX s"
  "gyroY (draw B f s) = gyroY s"
  "isMounted (draw B f s) = isMounted s"
  by (simp_all add: draw_eq)

lemma draw_gameOver:
  "gameOver (draw B f s) = gameOver (updateObstacles B f (updateScore f (drawFlowingLines s)))"
  by (simp add: draw_eq)

lemma draw_obstacles:
  "obstacles (draw B f s) = obstacles (updateObstacles B f (updateScore f (drawFlowingLines s)))"
  by (simp add: draw_eq)

lemma draw_over: "gameOver s \<Longrightarrow> draw B f s = drawFlowingLines s"
  by (simp add: draw_eq updateObstacles_idle updateScore_eq)

lemma draw_sticky: "gameOver s \<Longrightarrow> gameOver (draw B f s)"
  by (simp add: draw_over)

lemma draw_playing:
  assumes "\<not> gameOver (draw B f s)"
  shows "score (draw B f s) = max 0 ((millis f - roundStartTime s) / 1000)"
    and "bestScore (draw B f s) = bestScore s"
    and "world (draw B f s) = world s"
    and "lastHudScore (draw B f s) = normalizeScore (Fin (max 0 ((millis f - roundStartTime s) / 1000)))"
proof -
  let ?S = "updateScore f (drawFlowingLines s)"
  have n: "\<not> gameOver (updateObstacles B f ?S)" using assms by (simp add: draw_gameOver)
  then have ns: "\<not> gameOver s" using updateObstacles_sticky [of ?S B f] by auto
  from updateObstacles_playing [OF n] ns
  show "score (draw B f s) = max 0 ((millis f - roundStartTime s) / 1000)"
    and "bestScore (draw B f s) = bestScore s"
    and "world (draw B f s) = world s"
    and "lastHudScore (draw B f s) = normalizeScore (Fin (max 0 ((millis f - roundStartTime s) / 1000)))"
    by (simp_all add: draw_eq updateScore_score)
qed

lemma draw_collision:
  assumes "\<not> gameOver s" "gameOver (draw B f s)"
  shows "score (draw B f s) = normalizeScore (Fin (max 0 ((millis f - roundStartTime s) / 1000)))"
    and "bestScore (draw B f s) =
      max (bestScore s) (normalizeScore (Fin (max 0 ((millis f - roundStartTime s) / 1000))))"
    and "world (draw B f s) =
      (if normalizeScore (Fin (max 0 ((millis f - roundStartTime s) / 1000))) > bestScore s
       then writeSessionBest B (normalizeScore (Fin (max 0 ((millis f - roundStartTime s) / 1000)))) (world s)
       else world s)"
proof -
  let ?S = "updateScore f (drawFlowingLines s)"
  have g: "gameOver (updateObstacles B f ?S)" using assms by (simp add: draw_gameOver)
  have n: "\<not> gameOver ?S" using assms by simp
  from updateObstacles_collision [OF n g] assms(1) g
  show "score (draw B f s) = normalizeScore (Fin (max 0 ((millis f - roundStartTime s) / 1000)))"
    and "bestScore (draw B f s) =
      max (bestScore s) (normalizeScore (Fin (max 0 ((millis f - roundStartTime s) / 1000))))"
    and "world (draw B f s) =
      (if normalizeScore (Fin (max 0 ((millis f - roundStartTime s) / 1000))) > bestScore s
       then writeSessionBest B (normalizeScore (Fin (max 0 ((millis f - roundStartTime s) / 1000)))) (world s)
       else world s)"
    by (simp_all add: draw_eq updateScore_score)
qed

subsection \<open>Evaluating the sample session\<close>

lemma hits_iff:
  "hits h ob \<longleftrightarrow>
     0 < headRadius + ob_size ob * 0.45 \<and>
     (ob_x ob - seg_x h)\<^sup>2 + (ob_y ob - seg_y h)\<^sup>2 < (headRadius + ob_size ob * 0.45)\<^sup>2"
proof -
  let ?a = "(ob_x ob - seg_x h)\<^sup>2 + (ob_y ob - seg_y h)\<^sup>2"
  let ?r = "headRadius + ob_size ob * 0.45"
  have a: "0 \<le> ?a" by simp
  have "sqrt ?a < ?r \<longleftrightarrow> 0 < ?r \<and> ?a < ?r\<^sup>2"
  proof (cases "0 < ?r")
    case True
    then have "sqrt ?a < ?r \<longleftrightarrow> sqrt ?a < sqrt (?r\<^sup>2)" by simp
    also have "\<dots> \<longleftrightarrow> ?a < ?r\<^sup>2" by (rule real_sqrt_less_iff)
    finally show ?thesis using True by simp
  next
    case False
    have "0 \<le> sqrt ?a" using a by simp
    with False show ?thesis by linarith
  qed
  then show ?thesis by (simp add: hits_def Let_def p_dist_def)
qed

lemma initSegments_eq:
  "initSegments cw ch s =
     s\<lparr>segments :=
        [\<lparr>seg_x = cw / 2, seg_y = ch / 2, seg_easeFactor = 0.16\<rparr>,
         \<lparr>seg_x = cw / 2, seg_y = ch / 2, seg_easeFactor = 0.156\<rparr>,
         \<lparr>seg_x = cw / 2, seg_y = ch / 2, seg_easeFactor = 0.152\<rparr>,
         \<lparr>seg_x = cw / 2, seg_y = ch / 2, seg_easeFactor = 0.148\<rparr>,
         \<lparr>seg_x = cw / 2, seg_y = ch / 2, seg_easeFactor = 0.144\<rparr>]\<rparr>"
  using initSegments_segments [of cw ch s] by (simp add: initSegments_def)

lemma ex_mounted_eq:
  "ex_mounted =
     \<lparr>segments =
        [\<lparr>seg_x = 400, seg_y = 50, seg_easeFactor = 0.16\<rparr>,
         \<lparr>seg_x = 400, seg_y = 50, seg_easeFactor = 0.156\<rparr>,
         \<lparr>seg_x = 400, seg_y = 50, seg_easeFactor = 0.152\<rparr>,
         \<lparr>seg_x = 400, seg_y = 50, seg_easeFactor = 0.148\<rparr>,
         \<lparr>seg_x = 400, seg_y = 50, seg_easeFactor = 0.144\<rparr>],
      headImage = Some \<lparr>img_width = 64, img_height = 64\<rparr>,
      patternImage = Some \<lparr>img_width = 64, img_height = 64\<rparr>,
      yearImage = Some \<lparr>img_width = 64, img_height = 64\<rparr>,
      backgroundTexture = Some \<lparr>img_width = 64, img_height = 64\<rparr>,
      obstacleImage = Some \<lparr>img_width = 64, img_height = 64\<rparr>,
      gyroX = 0, gyroY = 0, useGyro = False, flowOffset = 0, introOverlayActive = True,
      obstacles = [], obstacleSpawnTimer = 0, nextObstacleDelay = 900, score = 0,
      bestScore = 0, roundStartTime = 0, lastHudScore = - 1, gameOver = False,
      p_width = 800, p_height = 100, hud_gameOver = False, hud_score = 0, hud_bestScore = 0,
      isMounted = True,
      world = \<lparr>items = Map.empty, getItemThrows = False, setItemThrows = False,
                getItemCalls = 1, console = []\<rparr>\<rparr>"
proof -
  have m: "mount ex_js ex_browser =
     \<lparr>segments = [], headImage = None, patternImage = None, yearImage = None,
      backgroundTexture = None, obstacleImage = None, gyroX = 0, gyroY = 0,
      useGyro = False, flowOffset = 0, introOverlayActive = True, obstacles = [],
      obstacleSpawnTimer = 0, nextObstacleDelay = 1200, score = 0,
      bestScore = 0, roundStartTime = 0, lastHudScore = - 1,
      gameOver = False, p_width = 100, p_height = 100, hud_gameOver = False,
      hud_score = 0, hud_bestScore = 0, isMounted = True,
      world = \<lparr>items = Map.empty, getItemThrows = False, setItemThrows = False,
                getItemCalls = 1, console = []\<rparr>\<rparr>"
    by (simp add: mount_def readSessionBest_def ex_browser_def Let_def normalizeScore_def
        toFixed1_def)
  show ?thesis
    unfolding ex_mounted_def boot_def m
    by (simp add: p_setup_def preload_def ex_loader_def loadImage_def Let_def resetGame_def
        initSegments_eq updateHud_def setIntroOverlayState_def canvasWidthOf_def
        normalizeScore_def toFixed1_def p_random_def)
qed

lemma ex_playing_eq:
  "ex_playing =
     \<lparr>segments =
        [\<lparr>seg_x = 400, seg_y = 50, seg_easeFactor = 0.16\<rparr>,
         \<lparr>seg_x = 400, seg_y = 50, seg_easeFactor = 0.156\<rparr>,
         \<lparr>seg_x = 400, seg_y = 50, seg_easeFactor = 0.152\<rparr>,
         \<lparr>seg_x = 400, seg_y = 50, seg_easeFactor = 0.148\<rparr>,
         \<lparr>seg_x = 400, seg_y = 50, seg_easeFactor = 0.144\<rparr>],
      headImage = Some \<lparr>img_width = 64, img_height = 64\<rparr>,
      patternImage = Some \<lparr>img_width = 64, img_height = 64\<rparr>,
      yearImage = Some \<lparr>img_width = 64, img_height = 64\<rparr>,
      backgroundTexture = Some \<lparr>img_width = 64, img_height = 64\<rparr>,
      obstacleImage = Some \<lparr>img_width = 64, img_height = 64\<rparr>,
      gyroX = 0, gyroY = 0, useGyro = False, flowOffset = 0, introOverlayActive = False,
      obstacles = [], obstacleSpawnTimer = 0, nextObstacleDelay = 900, score = 0,
      bestScore = 0, roundStartTime = 1000, lastHudScore = - 1, gameOver = False,
      p_width = 800, p_height = 100, hud_gameOver = False, hud_score = 0, hud_bestScore = 0,
      isMounted = True,
      world = \<lparr>items = Map.empty, getItemThrows = False, setItemThrows = False,
                getItemCalls = 1, console = []\<rparr>\<rparr>"
  unfolding ex_playing_def ex_mounted_eq
  by (simp add: handleStartClick_def Let_def resetGame_def
      initSegments_eq updateHud_def setIntroOverlayState_def
      normalizeScore_def toFixed1_def p_random_def)

section \<open>Reset keeps the best score\<close>

text \<open>
  Claim C10. \<^verbatim>\<open>resetGame\<close>, the reset behind start and retry, leaves the best score and
  the whole browser state (so the persisted value) as they were, for every state and
  every clock and random sample; it re-initialises the score, the spawn timer and its
  delay, the obstacles, the game-over flag and the five segments.
\<close>

theorem resetGame_keeps_bestScore:
  "bestScore (resetGame now u s) = bestScore s \<and>
   world (resetGame now u s) = world s \<and>
   items (world (resetGame now u s)) BEST_SCORE_KEY = items (world s) BEST_SCORE_KEY \<and>
   score (resetGame now u s) = 0 \<and>
   obstacleSpawnTimer (resetGame now u s) = 0 \<and>
   nextObstacleDelay (resetGame now u s) = p_random 900 1600 u \<and>
   obstacles (resetGame now u s) = [] \<and>
   gameOver (resetGame now u s) = False \<and>
   segments (resetGame now u s) = segments (initSegments (p_width s) (p_height s) s)"
  by (simp add: resetGame_def Let_def initSegments_def)

subsection \<open>The sample frame\<close>

lemma ex_spawn:
  "obstacles (spawnTick ex_frame (updateScore ex_frame (drawFlowingLines ex_playing))) =
     [\<lparr>ob_x = 400, ob_y = - 40, ob_speed = 1.2, ob_size = 40, ob_drift = - 0.4\<rparr>]"
  by (simp add: spawnTick_def spawnObstacle_def Let_def ex_playing_eq ex_frame_def p_random_def)

lemma ex_head:
  "headOf (updateScore ex_frame (drawFlowingLines ex_playing)) =
     Some \<lparr>seg_x = 400, seg_y = 50, seg_easeFactor = 0.16\<rparr>"
  by (simp add: headOf_def ex_playing_eq)

lemma ex_collides: "gameOver (draw ex_js ex_frame ex_playing)"
proof -
  have "gameOver (updateObstacles ex_js ex_frame (updateScore ex_frame (drawFlowingLines ex_playing)))
      \<longleftrightarrow> (\<exists>ob \<in> set (obstacles (spawnTick ex_frame (updateScore ex_frame (drawFlowingLines ex_playing)))).
            hitBy (headOf (updateScore ex_frame (drawFlowingLines ex_playing))) ob)"
    by (rule updateObstacles_gameOver_iff) (simp_all add: ex_playing_eq)
  then show ?thesis
    unfolding draw_gameOver ex_spawn ex_head
    by (simp add: hitBy_def hits_iff moveObstacle_def headRadius_def power2_eq_square)
qed

lemma ex_playing_fields:
  "introOverlayActive ex_playing = False" "gameOver ex_playing = False"
  "roundStartTime ex_playing = 1000" "bestScore ex_playing = 0"
  "world ex_playing = \<lparr>items = Map.empty, getItemThrows = False, setItemThrows = False,
                getItemCalls = 1, console = []\<rparr>"
  by (simp_all add: ex_playing_eq)

lemma normalizeScore_3400: "normalizeScore (Fin (max 0 ((4400 - 1000) / 1000))) = 3.4"
  by (simp add: normalizeScore_def toFixed1_def)

section \<open>The best score at the end of a round\<close>

text \<open>
  Claim C1. On the frame that takes the phase from Playing to GameOver, the score
  becomes the elapsed time rounded to one decimal and the best score becomes the larger of
  the previous best score and that rounded score: when the rounded score is larger it is
  the new best score, and it is written to the session storage under the best-score key
  (when the storage accepts the write); otherwise the best score and the browser state
  stay as they were. Afterwards the best score is at least the score.
\<close>

theorem bestScore_at_collision:
  assumes "phase_of s = Playing" and "phase_of (draw B f s) = GameOver"
  shows "score (draw B f s) = normalizeScore (Fin (max 0 ((millis f - roundStartTime s) / 1000))) \<and>
    bestScore (draw B f s) = max (bestScore s) (score (draw B f s)) \<and>
    (bestScore s < score (draw B f s) \<longrightarrow>
       bestScore (draw B f s) = score (draw B f s) \<and>
       (\<not> setItemThrows (world s) \<longrightarrow>
          items (world (draw B f s)) BEST_SCORE_KEY = Some (js_toString B (score (draw B f s))))) \<and>
    (\<not> bestScore s < score (draw B f s) \<longrightarrow>
       bestScore (draw B f s) = bestScore s \<and> world (draw B f s) = world s) \<and>
    score (draw B f s) \<le> bestScore (draw B f s)"
proof -
  have n: "\<not> gameOver s" using assms(1) by (simp add: phase_of_def split: if_splits)
  have g: "gameOver (draw B f s)" using assms(2) by (simp add: phase_of_def split: if_splits)
  note c = draw_collision [OF n g]
  show ?thesis
    unfolding c by (simp add: writeSessionBest_def)
qed

theorem bestScore_at_collision_witness:
  "phase_of ex_playing = Playing \<and> phase_of (draw ex_js ex_frame ex_playing) = GameOver \<and>
   score (draw ex_js ex_frame ex_playing) = 3.4 \<and>
   bestScore (draw ex_js ex_frame ex_playing) = 3.4 \<and>
   items (world (draw ex_js ex_frame ex_playing)) BEST_SCORE_KEY = Some ''3.4''"
proof -
  have p: "phase_of ex_playing = Playing"
    by (simp add: phase_of_def ex_playing_fields)
  have q: "phase_of (draw ex_js ex_frame ex_playing) = GameOver"
    using ex_collides by (simp add: phase_of_def ex_playing_fields)
  have r: "normalizeScore (Fin (max 0 ((millis ex_frame - roundStartTime ex_playing) / 1000))) = 3.4"
    using normalizeScore_3400 by (simp add: ex_frame_def ex_playing_fields)
  from bestScore_at_collision [OF p q, unfolded r]
  have "score (draw ex_js ex_frame ex_playing) = 3.4"
    and "bestScore (draw ex_js ex_frame ex_playing) = max (bestScore ex_playing) (score (draw ex_js ex_frame ex_playing))"
    and "bestScore ex_playing < score (draw ex_js ex_frame ex_playing) \<longrightarrow>
       (\<not> setItemThrows (world ex_playing) \<longrightarrow>
          items (world (draw ex_js ex_frame ex_playing)) BEST_SCORE_KEY =
            Some (js_toString ex_js (score (draw ex_js ex_frame ex_playing))))"
    by simp_all
  then show ?thesis using p q by (simp add: ex_playing_fields ex_js_def)
qed

subsection \<open>Runs\<close>

lemma stateAt_0 [simp]: "stateAt B fs s 0 = s"
  by (simp add: stateAt_def)

lemma stateAt_Suc:
  "k < length fs \<Longrightarrow> stateAt B fs s (Suc k) = draw B (fs ! k) (stateAt B fs s k)"
  by (simp add: stateAt_def take_Suc_conv_app_nth)

lemma stateAt_roundStartTime [simp]:
  "roundStartTime (stateAt B fs s k) = roundStartTime s"
proof (induction k)
  case 0
  then show ?case by simp
next
  case (Suc k)
  show ?case
  proof (cases "k < length fs")
    case True
    then show ?thesis using Suc by (simp add: stateAt_Suc)
  next
    case False
    then have "stateAt B fs s (Suc k) = stateAt B fs s k" by (simp add: stateAt_def)
    then show ?thesis using Suc by simp
  qed
qed

lemma stateAt_over:
  "gameOver (stateAt B fs s i) \<Longrightarrow> i \<le> j \<Longrightarrow>
   gameOver (stateAt B fs s j) \<and> score (stateAt B fs s j) = score (stateAt B fs s i)"
proof (induction j)
  case 0
  then show ?case by simp
next
  case (Suc j)
  show ?case
  proof (cases "i = Suc j")
    case True
    then show ?thesis using Suc.prems by simp
  next
    case False
    then have ij: "i \<le> j" using Suc.prems by simp
    from Suc.IH [OF Suc.prems(1) ij]
    have g: "gameOver (stateAt B fs s j)" and sc: "score (stateAt B fs s j) = score (stateAt B fs s i)"
      by simp_all
    show ?thesis
    proof (cases "j < length fs")
      case True
      then show ?thesis using g sc by (simp add: stateAt_Suc draw_over)
    next
      case False
      then have "stateAt B fs s (Suc j) = stateAt B fs s j" by (simp add: stateAt_def)
      then show ?thesis using g sc by simp
    qed
  qed
qed

lemma step_over:
  "gameOver s \<Longrightarrow> \<not> isReset e \<Longrightarrow>
   gameOver (step B e s) \<and> score (step B e s) = score s \<and> bestScore (step B e s) = bestScore s"
  by (cases e)
    (simp_all add: draw_over setIntroOverlayState_def Let_def windowResized_def
      handleOrientation_def enableGyro_def)

lemma run_over:
  "gameOver s \<Longrightarrow> noReset evs \<Longrightarrow>
   gameOver (run B evs s) \<and> score (run B evs s) = score s \<and> bestScore (run B evs s) = bestScore s"
proof (induction evs arbitrary: s)
  case Nil
  then show ?case by (simp add: run_def)
next
  case (Cons e evs)
  from Cons.prems have e: "\<not> isReset e" and es: "noReset evs" by (simp_all add: noReset_def)
  from step_over [OF Cons.prems(1) e, of B]
  have g: "gameOver (step B e s)" and sc: "score (step B e s) = score s"
    and b: "bestScore (step B e s) = bestScore s"
    by auto
  from Cons.IH [OF g es] sc b show ?case by (simp add: run_def)
qed

lemma toFixed1_rounds:
  assumes "0 \<le> x" "x < 10 ^ 21"
  shows "toFixed1 x = of_int \<lfloor>x * 10 + 1 / 2\<rfloor> / 10" and "\<bar>toFixed1 x - x\<bar> \<le> 1 / 20"
proof -
  show eq: "toFixed1 x = of_int \<lfloor>x * 10 + 1 / 2\<rfloor> / 10"
  proof (cases "x = 0")
    case True
    then show ?thesis by (simp add: toFixed1_def)
  next
    case False
    with assms show ?thesis by (simp add: toFixed1_def)
  qed
  define r :: real where "r = of_int \<lfloor>x * 10 + 1 / 2\<rfloor>"
  have "r \<le> x * 10 + 1 / 2" unfolding r_def by (rule of_int_floor_le)
  moreover have "x * 10 + 1 / 2 < r + 1" unfolding r_def by linarith
  ultimately have "\<bar>r / 10 - x\<bar> \<le> 1 / 20" by linarith
  then show "\<bar>toFixed1 x - x\<bar> \<le> 1 / 20" unfolding eq r_def .
qed

lemma stateAt_playing:
  assumes k: "k < length fs" and n: "\<not> gameOver (stateAt B fs s (Suc k))"
  shows "score (stateAt B fs s (Suc k)) = max 0 ((millis (fs ! k) - roundStartTime s) / 1000)"
    and "lastHudScore (stateAt B fs s (Suc k)) =
      normalizeScore (Fin (max 0 ((millis (fs ! k) - roundStartTime s) / 1000)))"
  using draw_playing(1,4) [of B "fs ! k" "stateAt B fs s k"] n k
  by (simp_all add: stateAt_Suc)

section \<open>The score\<close>

text \<open>
  Claim C2. Along every sequence of frames whose clock does not run backwards: as long as
  the round is not over, the score after a frame is the time elapsed since the round
  started, in seconds (never negative), the value last reported to the HUD is that score
  rounded to one decimal (a multiple of 0.1 at most 0.05 away), and the score is at least
  every earlier score of the sequence. On the frame at which the game-over flag goes up
  the score becomes the rounded elapsed time. From then on the flag stays up and the
  score stays what it is, over further frames and over every other event except the two
  that reset the round.
\<close>

theorem score_is_elapsed_time:
  assumes "sorted (map millis fs)"
  shows
   "(\<forall>k < length fs. \<not> gameOver (stateAt B fs s (Suc k)) \<longrightarrow>
       score (stateAt B fs s (Suc k)) = max 0 ((millis (fs ! k) - roundStartTime s) / 1000) \<and>
       (roundStartTime s \<le> millis (fs ! k) \<longrightarrow>
          score (stateAt B fs s (Suc k)) = (millis (fs ! k) - roundStartTime s) / 1000) \<and>
       lastHudScore (stateAt B fs s (Suc k)) = normalizeScore (Fin (score (stateAt B fs s (Suc k)))) \<and>
       (score (stateAt B fs s (Suc k)) < 10 ^ 21 \<longrightarrow>
          (\<exists>n :: int. lastHudScore (stateAt B fs s (Suc k)) = of_int n / 10) \<and>
          \<bar>lastHudScore (stateAt B fs s (Suc k)) - score (stateAt B fs s (Suc k))\<bar> \<le> 1 / 20) \<and>
       (\<forall>i \<le> k. score (stateAt B fs s (Suc i)) \<le> score (stateAt B fs s (Suc k)))) \<and>
    (\<forall>k < length fs. \<not> gameOver (stateAt B fs s k) \<and> gameOver (stateAt B fs s (Suc k)) \<longrightarrow>
       score (stateAt B fs s (Suc k)) =
         normalizeScore (Fin (max 0 ((millis (fs ! k) - roundStartTime s) / 1000)))) \<and>
    (\<forall>i j. i \<le> j \<and> gameOver (stateAt B fs s i) \<longrightarrow>
       gameOver (stateAt B fs s j) \<and> score (stateAt B fs s j) = score (stateAt B fs s i)) \<and>
    (\<forall>evs. gameOver s \<and> noReset evs \<longrightarrow>
       gameOver (run B evs s) \<and> score (run B evs s) = score s)"
proof (intro conjI allI impI)
  fix k
  assume k: "k < length fs" and n: "\<not> gameOver (stateAt B fs s (Suc k))"
  note p = stateAt_playing [OF k n]
  show sc: "score (stateAt B fs s (Suc k)) = max 0 ((millis (fs ! k) - roundStartTime s) / 1000)"
    by (rule p)
  show "score (stateAt B fs s (Suc k)) = (millis (fs ! k) - roundStartTime s) / 1000"
    if "roundStartTime s \<le> millis (fs ! k)"
    using that by (simp add: sc)
  show hud: "lastHudScore (stateAt B fs s (Suc k)) = normalizeScore (Fin (score (stateAt B fs s (Suc k))))"
    using p by simp
  have nonneg: "0 \<le> score (stateAt B fs s (Suc k))" by (simp add: sc)
  show "\<exists>n :: int. lastHudScore (stateAt B fs s (Suc k)) = of_int n / 10"
    if "score (stateAt B fs s (Suc k)) < 10 ^ 21"
    using toFixed1_rounds(1) [OF nonneg that] by (auto simp: hud normalizeScore_def)
  show "\<bar>lastHudScore (stateAt B fs s (Suc k)) - score (stateAt B fs s (Suc k))\<bar> \<le> 1 / 20"
    if "score (stateAt B fs s (Suc k)) < 10 ^ 21"
    using toFixed1_rounds(2) [OF nonneg that] by (simp add: hud normalizeScore_def)
  show "score (stateAt B fs s (Suc i)) \<le> score (stateAt B fs s (Suc k))" if ik: "i \<le> k" for i
  proof -
    have ni: "\<not> gameOver (stateAt B fs s (Suc i))"
      using stateAt_over [of B fs s "Suc i" "Suc k"] n ik by auto
    have i: "i < length fs" using ik k by simp
    have "millis (fs ! i) \<le> millis (fs ! k)"
      using assms ik k sorted_nth_mono [of "map millis fs" i k] by simp
    then have "(millis (fs ! i) - roundStartTime s) / 1000 \<le> (millis (fs ! k) - roundStartTime s) / 1000"
      by (simp add: divide_right_mono)
    then show ?thesis
      unfolding sc stateAt_playing(1) [OF i ni] by linarith
  qed
next
  fix k
  assume k: "k < length fs"
    and "\<not> gameOver (stateAt B fs s k) \<and> gameOver (stateAt B fs s (Suc k))"
  then show "score (stateAt B fs s (Suc k)) =
      normalizeScore (Fin (max 0 ((millis (fs ! k) - roundStartTime s) / 1000)))"
    using draw_collision(1) [of "stateAt B fs s k" B "fs ! k"] by (simp add: stateAt_Suc)
next
  fix i j
  assume "i \<le> j \<and> gameOver (stateAt B fs s i)"
  then show "gameOver (stateAt B fs s j)" and "score (stateAt B fs s j) = score (stateAt B fs s i)"
    using stateAt_over [of B fs s i j] by simp_all
next
  fix evs
  assume "gameOver s \<and> noReset evs"
  then show "gameOver (run B evs s)" and "score (run B evs s) = score s"
    using run_over [of s evs B] by simp_all
qed

subsection \<open>The sample session over two frames\<close>

lemma upt_1_5: "[1..<5] = [1, 2, 3, 4]"
  by (simp add: upt_rec [of 1] upt_rec [of 2] upt_rec [of 3] upt_rec [of 4] eval_nat_numeral)

lemma ex_ticked_eq:
  "ex_ticked =
     \<lparr>segments =
        [\<lparr>seg_x = 400, seg_y = 50, seg_easeFactor = 0.16\<rparr>,
         \<lparr>seg_x = 400, seg_y = 50, seg_easeFactor = 0.156\<rparr>,
         \<lparr>seg_x = 400, seg_y = 50, seg_easeFactor = 0.152\<rparr>,
         \<lparr>seg_x = 400, seg_y = 50, seg_easeFactor = 0.148\<rparr>,
         \<lparr>seg_x = 400, seg_y = 50, seg_easeFactor = 0.144\<rparr>],
      headImage = Some \<lparr>img_width = 64, img_height = 64\<rparr>,
      patternImage = Some \<lparr>img_width = 64, img_height = 64\<rparr>,
      yearImage = Some \<lparr>img_width = 64, img_height = 64\<rparr>,
      backgroundTexture = Some \<lparr>img_width = 64, img_height = 64\<rparr>,
      obstacleImage = Some \<lparr>img_width = 64, img_height = 64\<rparr>,
      gyroX = 0, gyroY = 0, useGyro = False, flowOffset = 0.5, introOverlayActive = False,
      obstacles = [], obstacleSpawnTimer = 16, nextObstacleDelay = 900, score = 1,
      bestScore = 0, roundStartTime = 1000, lastHudScore = 1, gameOver = False,
      p_width = 800, p_height = 100, hud_gameOver = False, hud_score = 1, hud_bestScore = 0,
      isMounted = True,
      world = \<lparr>items = Map.empty, getItemThrows = False, setItemThrows = False,
                getItemCalls = 1, console = []\<rparr>\<rparr>"
  unfolding ex_ticked_def ex_playing_eq
  by (simp add: ex_tick_def draw_def drawFlowingLines_def updateScore_def updateObstacles_def
      spawnTick_def spawnObstacle_def headOf_def updateChain_def Let_def updateHud_def
      normalizeScore_def toFixed1_def pointerTarget_def followBody_def easeToward_def upt_1_5)

lemma ex_ticked_collides:
  "gameOver (draw ex_js ex_frame ex_ticked)" "score (draw ex_js ex_frame ex_ticked) = 3.4"
  unfolding ex_ticked_eq
  by (simp_all add: ex_frame_def ex_js_def draw_def drawFlowingLines_def updateScore_def updateObstacles_def
      spawnTick_def spawnObstacle_def headOf_def updateChain_def Let_def updateHud_def
      normalizeScore_def toFixed1_def pointerTarget_def followBody_def easeToward_def upt_1_5
      obstacleBody_def moveObstacle_def hits_iff headRadius_def offscreen_def p_random_def
      collisionBranch_def writeSessionBest_def power2_eq_square)

theorem score_is_elapsed_time_witness:
  "sorted (map millis [ex_tick, ex_frame]) \<and>
   \<not> gameOver (stateAt ex_js [ex_tick, ex_frame] ex_playing 1) \<and>
   score (stateAt ex_js [ex_tick, ex_frame] ex_playing 1) = 1 \<and>
   lastHudScore (stateAt ex_js [ex_tick, ex_frame] ex_playing 1) = 1 \<and>
   gameOver (stateAt ex_js [ex_tick, ex_frame] ex_playing 2) \<and>
   score (stateAt ex_js [ex_tick, ex_frame] ex_playing 2) = 3.4"
proof -
  have srt: "sorted (map millis [ex_tick, ex_frame])"
    by (simp add: ex_tick_def ex_frame_def)
  have s1: "stateAt ex_js [ex_tick, ex_frame] ex_playing (Suc 0) = ex_ticked"
    by (simp add: stateAt_def ex_ticked_def)
  have s2: "stateAt ex_js [ex_tick, ex_frame] ex_playing (Suc (Suc 0)) = draw ex_js ex_frame ex_ticked"
    by (simp add: stateAt_def ex_ticked_def)
  have n1: "\<not> gameOver ex_ticked" by (simp add: ex_ticked_eq)
  note t = score_is_elapsed_time [OF srt, of ex_js ex_playing]
  have n1': "\<not> gameOver (stateAt ex_js [ex_tick, ex_frame] ex_playing (Suc 0))"
    using n1 s1 by simp
  have n0: "\<not> gameOver (stateAt ex_js [ex_tick, ex_frame] ex_playing (Suc 0)) \<and>
      gameOver (stateAt ex_js [ex_tick, ex_frame] ex_playing (Suc (Suc 0)))"
    using n1 s1 s2 ex_ticked_collides(1) by simp
  have a: "score (stateAt ex_js [ex_tick, ex_frame] ex_playing (Suc 0)) =
      max 0 ((millis ([ex_tick, ex_frame] ! 0) - roundStartTime ex_playing) / 1000)"
    and b: "lastHudScore (stateAt ex_js [ex_tick, ex_frame] ex_playing (Suc 0)) =
      normalizeScore (Fin (score (stateAt ex_js [ex_tick, ex_frame] ex_playing (Suc 0))))"
    using t [THEN conjunct1, rule_format, of 0, OF _ n1'] by simp_all
  have c: "score (stateAt ex_js [ex_tick, ex_frame] ex_playing (Suc (Suc 0))) =
      normalizeScore (Fin (max 0 ((millis ([ex_tick, ex_frame] ! Suc 0) - roundStartTime ex_playing) / 1000)))"
    using t [THEN conjunct2, THEN conjunct1, rule_format, of "Suc 0", OF _ n0] by simp
  have a': "score (stateAt ex_js [ex_tick, ex_frame] ex_playing (Suc 0)) = 1"
    using a by (simp add: ex_tick_def ex_playing_fields)
  have b': "lastHudScore (stateAt ex_js [ex_tick, ex_frame] ex_playing (Suc 0)) = 1"
    using b unfolding a' by (simp add: normalizeScore_def toFixed1_def)
  have c': "score (stateAt ex_js [ex_tick, ex_frame] ex_playing (Suc (Suc 0))) = 3.4"
    using c by (simp add: ex_frame_def ex_playing_fields normalizeScore_def toFixed1_def)
  show ?thesis
    using srt n1 a' b' c' ex_ticked_collides(1) s1 s2
    by (simp add: numeral_2_eq_2)
qed

subsection \<open>One update of the chain\<close>

lemma updateChain_segments:
  fixes f :: frame and s :: sketch
  assumes "segments s \<noteq> []"
  defines "tx \<equiv> (if useGyro s then gyroX s else pointerTarget (mouseX f) (p_width s / 2))"
    and "ty \<equiv> (if useGyro s then gyroY s else pointerTarget (mouseY f) (p_height s / 2))"
  shows "length (segments (updateChain f s)) = length (segments s)"
    and "segments (updateChain f s) ! 0 = easeToward tx ty (segments s ! 0)"
    and "\<And>i. 1 \<le> i \<Longrightarrow> i < length (segments s) \<Longrightarrow>
      segments (updateChain f s) ! i =
        easeToward (seg_x (segments (updateChain f s) ! (i - 1)))
          (seg_y (segments (updateChain f s) ! (i - 1))) (segments s ! i)"
proof -
  define segs0 where "segs0 = (segments s)[0 := easeToward tx ty (segments s ! 0)]"
  have u: "segments (updateChain f s) = fold followBody [1..<length segs0] segs0"
    by (simp add: updateChain_def Let_def segs0_def tx_def ty_def)
  have len0: "length segs0 = length (segments s)" by (simp add: segs0_def)
  note fb = fold_followBody [of "length segs0" segs0, simplified]
  show "length (segments (updateChain f s)) = length (segments s)"
    using fb len0 by (simp add: u)
  have pos: "0 < length (segments s)" using assms(1) by simp
  show "segments (updateChain f s) ! 0 = easeToward tx ty (segments s ! 0)"
    using fb [THEN conjunct2, rule_format, of 0] pos len0 by (simp add: u segs0_def)
  show "segments (updateChain f s) ! i =
        easeToward (seg_x (segments (updateChain f s) ! (i - 1)))
          (seg_y (segments (updateChain f s) ! (i - 1))) (segments s ! i)"
    if "1 \<le> i" "i < length (segments s)" for i
  proof -
    have "segs0 ! i = segments s ! i" using that by (simp add: segs0_def)
    then show ?thesis
      using fb [THEN conjunct2, rule_format, of i] that len0 by (simp add: u)
  qed
qed

lemma draw_segments:
  assumes "segments s \<noteq> []" "\<not> gameOver (draw B f s)"
  shows "segments (draw B f s) = segments (updateChain f s)"
proof -
  let ?S = "updateObstacles B f (updateScore f (drawFlowingLines s))"
  have "\<not> gameOver ?S" using assms(2) by (simp add: draw_gameOver)
  then have "draw B f s = updateChain f ?S"
    using assms(1) by (simp add: draw_eq)
  then show ?thesis by (simp add: updateChain_def Let_def)
qed

section \<open>The follower chain\<close>

text \<open>
  Claim C3, as amended. On a frame that updates the chain (there are segments and the
  round is not over after the obstacle pass), the chain keeps its length, segment 0 eases
  toward the target by its ease factor, and every segment \<open>i \<ge> 1\<close> eases by its own
  ease factor toward the position its predecessor has after this frame's update of that
  predecessor: the loop runs from the head down, in place. The target is the sensor's
  position when the sensor is in use, the pointer otherwise (the centre where a
  coordinate is not finite or negative).
\<close>

theorem chain_follows_updated_predecessor:
  assumes "segments s \<noteq> []" and "\<not> gameOver (draw B f s)"
  shows
   "length (segments (draw B f s)) = length (segments s) \<and>
    segments (draw B f s) ! 0 =
      easeToward (if useGyro s then gyroX s else pointerTarget (mouseX f) (p_width s / 2))
        (if useGyro s then gyroY s else pointerTarget (mouseY f) (p_height s / 2))
        (segments s ! 0) \<and>
    (\<forall>i. 1 \<le> i \<and> i < length (segments s) \<longrightarrow>
       seg_x (segments (draw B f s) ! i) =
         seg_x (segments s ! i) +
           (seg_x (segments (draw B f s) ! (i - 1)) - seg_x (segments s ! i)) *
             seg_easeFactor (segments s ! i) \<and>
       seg_y (segments (draw B f s) ! i) =
         seg_y (segments s ! i) +
           (seg_y (segments (draw B f s) ! (i - 1)) - seg_y (segments s ! i)) *
             seg_easeFactor (segments s ! i) \<and>
       seg_easeFactor (segments (draw B f s) ! i) = seg_easeFactor (segments s ! i))"
proof -
  note d = draw_segments [OF assms]
  note u = updateChain_segments [OF assms(1), where f = f]
  have "seg_x (segments (updateChain f s) ! i) =
         seg_x (segments s ! i) +
           (seg_x (segments (updateChain f s) ! (i - 1)) - seg_x (segments s ! i)) *
             seg_easeFactor (segments s ! i) \<and>
       seg_y (segments (updateChain f s) ! i) =
         seg_y (segments s ! i) +
           (seg_y (segments (updateChain f s) ! (i - 1)) - seg_y (segments s ! i)) *
             seg_easeFactor (segments s ! i) \<and>
       seg_easeFactor (segments (updateChain f s) ! i) = seg_easeFactor (segments s ! i)"
    if "1 \<le> i \<and> i < length (segments s)" for i
  proof -
    have e: "segments (updateChain f s) ! i =
        easeToward (seg_x (segments (updateChain f s) ! (i - 1)))
          (seg_y (segments (updateChain f s) ! (i - 1))) (segments s ! i)"
      using u(3) [of i] that by simp
    show ?thesis by (simp add: e easeToward_def)
  qed
  then show ?thesis unfolding d using u(1,2) by simp
qed

lemma ex_moved_segments:
  "segments (draw ex_js ex_move ex_playing) =
     [\<lparr>seg_x = 336, seg_y = 50, seg_easeFactor = 0.16\<rparr>,
      \<lparr>seg_x = 390.016, seg_y = 50, seg_easeFactor = 0.156\<rparr>,
      \<lparr>seg_x = 398.482432, seg_y = 50, seg_easeFactor = 0.152\<rparr>,
      \<lparr>seg_x = 399.775399936, seg_y = 50, seg_easeFactor = 0.148\<rparr>,
      \<lparr>seg_x = 399.967657590784, seg_y = 50, seg_easeFactor = 0.144\<rparr>]"
    "gameOver (draw ex_js ex_move ex_playing) = False"
  unfolding ex_playing_eq
  by (simp_all add: ex_move_def draw_def drawFlowingLines_def updateScore_def updateObstacles_def
      spawnTick_def spawnObstacle_def headOf_def updateChain_def Let_def updateHud_def
      normalizeScore_def toFixed1_def pointerTarget_def followBody_def easeToward_def upt_1_5)

theorem chain_follows_updated_predecessor_witness:
  "segments ex_playing \<noteq> [] \<and> \<not> gameOver (draw ex_js ex_move ex_playing) \<and>
   seg_x (segments (draw ex_js ex_move ex_playing) ! 0) = 336 \<and>
   seg_x (segments (draw ex_js ex_move ex_playing) ! 1) = 400 + (336 - 400) * 0.156"
proof -
  have a: "segments ex_playing \<noteq> []" by (simp add: ex_playing_eq)
  have b: "\<not> gameOver (draw ex_js ex_move ex_playing)" by (simp add: ex_moved_segments)
  note t = chain_follows_updated_predecessor [OF a b]
  have h: "seg_x (segments (draw ex_js ex_move ex_playing) ! 0) = 336"
    using t [THEN conjunct2, THEN conjunct1]
    by (simp add: ex_playing_eq ex_move_def pointerTarget_def easeToward_def)
  have "seg_x (segments (draw ex_js ex_move ex_playing) ! 1) =
         seg_x (segments ex_playing ! 1) +
           (seg_x (segments (draw ex_js ex_move ex_playing) ! (1 - 1)) - seg_x (segments ex_playing ! 1)) *
             seg_easeFactor (segments ex_playing ! 1)"
    using t [THEN conjunct2, THEN conjunct2, rule_format, of 1] by (simp add: ex_playing_eq)
  then have "seg_x (segments (draw ex_js ex_move ex_playing) ! 1) = 400 + (336 - 400) * 0.156"
    using h by (simp add: ex_playing_eq)
  then show ?thesis using a b h by simp
qed

text \<open>
  Claim C3 as stated has every segment \<open>i \<ge> 1\<close> ease toward the position its
  predecessor had before the frame. In the sample session, with the pointer moved to the
  left edge, segment 1 ends at 390.016, eased toward the head's new position 336; eased
  toward the head's previous position 400 it would have stayed at 400.
\<close>

theorem chain_previous_position_counterexample:
  "seg_x (segments (draw ex_js ex_move ex_playing) ! 1) = 390.016 \<and>
   seg_x (easeToward (seg_x (segments ex_playing ! 0)) (seg_y (segments ex_playing ! 0))
            (segments ex_playing ! 1)) = 400 \<and>
   segments (draw ex_js ex_move ex_playing) ! 1 \<noteq>
     easeToward (seg_x (segments ex_playing ! 0)) (seg_y (segments ex_playing ! 0))
       (segments ex_playing ! 1)"
  unfolding ex_moved_segments
  by (simp add: ex_playing_eq easeToward_def)

subsection \<open>Hits and transitions\<close>

lemma spawnTick_pre [simp]:
  "obstacles (spawnTick f (updateScore f (drawFlowingLines s))) = obstacles (spawnTick f s)"
  by (simp add: spawnTick_def spawnObstacle_def Let_def)

lemma headOf_pre [simp]: "headOf (updateScore f (drawFlowingLines s)) = headOf s"
  by (simp add: headOf_def)

lemma hitBy_Some:
  "hitBy (Some h) ob \<longleftrightarrow>
     p_dist (seg_x h) (seg_y h) (ob_x ob + ob_drift ob) (ob_y ob + ob_speed ob)
       < 80 + ob_size ob * 0.45"
  by (simp add: hitBy_def hits_def moveObstacle_def Let_def headRadius_def)

lemma transitions_over: "gameOver s \<Longrightarrow> noReset evs \<Longrightarrow> transitions B evs s = 0"
proof (induction evs arbitrary: s)
  case Nil
  then show ?case by simp
next
  case (Cons e evs)
  from Cons.prems have e: "\<not> isReset e" and es: "noReset evs" by (simp_all add: noReset_def)
  from step_over [OF Cons.prems(1) e, of B] have "gameOver (step B e s)" by simp
  from Cons.IH [OF this es] Cons.prems(1) show ?case by simp
qed

lemma transitions_le_1: "noReset evs \<Longrightarrow> transitions B evs s \<le> 1"
proof (induction evs arbitrary: s)
  case Nil
  then show ?case by simp
next
  case (Cons e evs)
  from Cons.prems have es: "noReset evs" by (simp add: noReset_def)
  show ?case
  proof (cases "\<not> gameOver s \<and> gameOver (step B e s)")
    case True
    then have "transitions B evs (step B e s) = 0"
      using transitions_over [OF _ es, of "step B e s" B] by simp
    then show ?thesis using True by simp
  next
    case False
    then show ?thesis using Cons.IH [OF es, of "step B e s"] by auto
  qed
qed

section \<open>Collision\<close>

text \<open>
  Claim C4. On a frame of a running round (obstacle image present, overlay gone, game not
  over), with \<open>head\<close> the first segment and \<open>obs\<close> the obstacles after the spawn step:
  the round ends on this frame exactly when some obstacle, moved by its speed and drift,
  has its centre at Euclidean distance less than \<open>80 + size * 0.45\<close> from the head. The
  loop runs from the last obstacle to the first; when \<open>j\<close> is the index of the first
  collision it meets, the obstacles before \<open>j\<close> are left as they were (neither moved nor
  tested), the one at \<open>j\<close> is moved and kept, and those after \<open>j\<close> have been moved and
  dropped where off screen. Over any run of events without a reset the game-over flag
  goes up at most once.
\<close>

theorem collision_rule:
  fixes s :: sketch and f :: frame and head :: segment
  defines "obs \<equiv> obstacles (spawnTick f s)"
    and "hit \<equiv> \<lambda>ob. p_dist (seg_x head) (seg_y head) (ob_x ob + ob_drift ob) (ob_y ob + ob_speed ob)
                    < 80 + ob_size ob * 0.45"
  assumes "obstacleImage s \<noteq> None" and "\<not> introOverlayActive s" and "\<not> gameOver s"
    and "segments s = head # rest"
  shows
   "(gameOver (draw B f s) \<longleftrightarrow> (\<exists>ob \<in> set obs. hit ob)) \<and>
    (\<forall>j. j < length obs \<and> hit (obs ! j) \<and> (\<forall>k. j < k \<and> k < length obs \<longrightarrow> \<not> hit (obs ! k)) \<longrightarrow>
       obstacles (draw B f s) =
         take j obs @ [moveObstacle (obs ! j)] @ sweep (p_height s) (drop (Suc j) obs)) \<and>
    (\<forall>evs. noReset evs \<longrightarrow> transitions B evs s \<le> 1)"
proof (intro conjI allI impI)
  let ?S = "updateScore f (drawFlowingLines s)"
  have act: "obstacleImage ?S \<noteq> None" "\<not> introOverlayActive ?S" "\<not> gameOver ?S"
    using assms(3-5) by simp_all
  have hd: "headOf s = Some head" using assms(6) by (simp add: headOf_def)
  have hit: "hitBy (headOf s) ob = hit ob" for ob
    by (simp add: hd hitBy_Some hit_def)
  show "gameOver (draw B f s) \<longleftrightarrow> (\<exists>ob \<in> set obs. hit ob)"
    using updateObstacles_gameOver_iff [OF act, of B f]
    by (simp add: draw_gameOver hit obs_def)
  show "obstacles (draw B f s) =
         take j obs @ [moveObstacle (obs ! j)] @ sweep (p_height s) (drop (Suc j) obs)"
    if j: "j < length obs \<and> hit (obs ! j) \<and> (\<forall>k. j < k \<and> k < length obs \<longrightarrow> \<not> hit (obs ! k))" for j
  proof -
    have "updateObstacles B f ?S =
     collisionBranch B
       ((spawnTick f ?S)\<lparr>obstacles :=
           take j (obstacles (spawnTick f ?S)) @ [moveObstacle (obstacles (spawnTick f ?S) ! j)] @
           sweep (p_height ?S) (drop (Suc j) (obstacles (spawnTick f ?S)))\<rparr>)"
      using j by (intro updateObstacles_first_hit [OF act]) (simp_all add: hit obs_def)
    then show ?thesis by (simp add: draw_obstacles obs_def)
  qed
  show "transitions B evs s \<le> 1" if "noReset evs" for evs
    using that by (rule transitions_le_1)
qed

theorem collision_rule_witness:
  "obstacleImage ex_playing \<noteq> None \<and> \<not> introOverlayActive ex_playing \<and> \<not> gameOver ex_playing \<and>
   segments ex_playing = \<lparr>seg_x = 400, seg_y = 50, seg_easeFactor = 0.16\<rparr> # tl (segments ex_playing) \<and>
   obstacles (spawnTick ex_frame ex_playing) =
     [\<lparr>ob_x = 400, ob_y = - 40, ob_speed = 1.2, ob_size = 40, ob_drift = - 0.4\<rparr>] \<and>
   gameOver (draw ex_js ex_frame ex_playing) \<and>
   obstacles (draw ex_js ex_frame ex_playing) =
     [\<lparr>ob_x = 399.6, ob_y = - 38.8, ob_speed = 1.2, ob_size = 40, ob_drift = - 0.4\<rparr>] \<and>
   noReset [Draw ex_frame, Draw ex_tick] \<and>
   transitions ex_js [Draw ex_frame, Draw ex_tick] ex_playing \<le> 1"
proof -
  have a: "obstacleImage ex_playing \<noteq> None" "\<not> introOverlayActive ex_playing"
    "\<not> gameOver ex_playing"
    "segments ex_playing = \<lparr>seg_x = 400, seg_y = 50, seg_easeFactor = 0.16\<rparr> # tl (segments ex_playing)"
    by (simp_all add: ex_playing_eq)
  have sp: "obstacles (spawnTick ex_frame ex_playing) =
     [\<lparr>ob_x = 400, ob_y = - 40, ob_speed = 1.2, ob_size = 40, ob_drift = - 0.4\<rparr>]"
    using ex_spawn by simp
  have d: "p_dist 400 50 (400 + - 0.4) (- 40 + 1.2) < 80 + 40 * 0.45"
  proof -
    have "p_dist 400 50 (400 + - 0.4) (- 40 + 1.2) < sqrt (98\<^sup>2)"
      unfolding p_dist_def by (rule real_sqrt_less_mono) (simp add: power2_eq_square)
    then show ?thesis by simp
  qed
  have nr: "noReset [Draw ex_frame, Draw ex_tick]" by (simp add: noReset_def)
  note t = collision_rule [OF a, of ex_js ex_frame, unfolded sp]
  have g: "gameOver (draw ex_js ex_frame ex_playing)"
    using t [THEN conjunct1] d by simp
  have o: "obstacles (draw ex_js ex_frame ex_playing) =
     [\<lparr>ob_x = 399.6, ob_y = - 38.8, ob_speed = 1.2, ob_size = 40, ob_drift = - 0.4\<rparr>]"
    using t [THEN conjunct2, THEN conjunct1, THEN spec, of 0] d
    by (auto simp add: moveObstacle_def sweep_def)
  have tr: "transitions ex_js [Draw ex_frame, Draw ex_tick] ex_playing \<le> 1"
    using t [THEN conjunct2, THEN conjunct2, rule_format, OF nr] .
  show ?thesis using a sp g o nr tr by simp
qed

subsection \<open>The obstacles a frame leaves\<close>

lemma stateAt_over_obstacles:
  "gameOver s \<Longrightarrow> obstacles (stateAt B fs s k) = obstacles s \<and> gameOver (stateAt B fs s k)"
proof (induction k)
  case 0
  then show ?case by simp
next
  case (Suc k)
  show ?case
  proof (cases "k < length fs")
    case True
    then show ?thesis using Suc by (simp add: stateAt_Suc draw_over)
  next
    case False
    then have "stateAt B fs s (Suc k) = stateAt B fs s k" by (simp add: stateAt_def)
    then show ?thesis using Suc by simp
  qed
qed

lemma draw_no_hit_obstacles:
  assumes "obstacleImage s \<noteq> None" "\<not> introOverlayActive s" "\<not> gameOver (draw B f s)"
  shows "obstacles (draw B f s) = sweep (p_height s) (obstacles (spawnTick f s))"
proof -
  let ?S = "updateScore f (drawFlowingLines s)"
  have n: "\<not> gameOver (updateObstacles B f ?S)" using assms(3) by (simp add: draw_gameOver)
  then have ns: "\<not> gameOver ?S" using updateObstacles_sticky [of ?S B f] by blast
  have act: "obstacleImage ?S \<noteq> None" "\<not> introOverlayActive ?S" "\<not> gameOver ?S"
    using assms(1,2) ns by simp_all
  have "\<forall>ob \<in> set (obstacles (spawnTick f ?S)). \<not> hitBy (headOf ?S) ob"
    using updateObstacles_gameOver_iff [OF act, of B f] n by blast
  from updateObstacles_no_hit [OF act this, of B]
  show ?thesis by (simp add: draw_obstacles)
qed

section \<open>Removal of obstacles\<close>

text \<open>
  Claim C5, as amended. On a frame of a running round in which no collision is detected,
  the obstacles left are exactly the obstacles after the spawn step, each moved by its
  speed and drift, without those whose upper edge \<open>y - size / 2\<close> is then more than 50
  below the height of the canvas (the obstacle is drawn centred on \<open>(x, y)\<close>, so it has
  left the canvas altogether, by more than 50). Once the game is over, frames remove no
  obstacle.
\<close>

theorem obstacle_removal:
  "(obstacleImage s \<noteq> None \<and> \<not> introOverlayActive s \<and> \<not> gameOver (draw B f s) \<longrightarrow>
      obstacles (draw B f s) =
        filter (\<lambda>ob. \<not> ob_y ob - ob_size ob / 2 > p_height s + 50)
          (map moveObstacle (obstacles (spawnTick f s)))) \<and>
   (gameOver s \<longrightarrow> (\<forall>fs k. obstacles (stateAt B fs s k) = obstacles s))"
proof (intro conjI impI allI)
  assume "obstacleImage s \<noteq> None \<and> \<not> introOverlayActive s \<and> \<not> gameOver (draw B f s)"
  then have "obstacles (draw B f s) = sweep (p_height s) (obstacles (spawnTick f s))"
    by (intro draw_no_hit_obstacles) simp_all
  then show "obstacles (draw B f s) =
        filter (\<lambda>ob. \<not> ob_y ob - ob_size ob / 2 > p_height s + 50)
          (map moveObstacle (obstacles (spawnTick f s)))"
    by (simp add: sweep_def offscreen_def)
next
  fix fs k
  assume "gameOver s"
  then show "obstacles (stateAt B fs s k) = obstacles s"
    by (simp add: stateAt_over_obstacles)
qed

lemma ex_falling_eq:
  "ex_falling =
     \<lparr>segments =
        [\<lparr>seg_x = 400, seg_y = 50, seg_easeFactor = 0.16\<rparr>,
         \<lparr>seg_x = 400, seg_y = 50, seg_easeFactor = 0.156\<rparr>,
         \<lparr>seg_x = 400, seg_y = 50, seg_easeFactor = 0.152\<rparr>,
         \<lparr>seg_x = 400, seg_y = 50, seg_easeFactor = 0.148\<rparr>,
         \<lparr>seg_x = 400, seg_y = 50, seg_easeFactor = 0.144\<rparr>],
      headImage = Some \<lparr>img_width = 64, img_height = 64\<rparr>,
      patternImage = Some \<lparr>img_width = 64, img_height = 64\<rparr>,
      yearImage = Some \<lparr>img_width = 64, img_height = 64\<rparr>,
      backgroundTexture = Some \<lparr>img_width = 64, img_height = 64\<rparr>,
      obstacleImage = Some \<lparr>img_width = 64, img_height = 64\<rparr>,
      gyroX = 0, gyroY = 0, useGyro = False, flowOffset = 0.5, introOverlayActive = False,
      obstacles =
        [\<lparr>ob_x = 100, ob_y = 170, ob_speed = 1.2, ob_size = 40, ob_drift = 0\<rparr>,
         \<lparr>ob_x = 700, ob_y = 180.8, ob_speed = 1.2, ob_size = 80, ob_drift = 0\<rparr>],
      obstacleSpawnTimer = 16, nextObstacleDelay = 900, score = 1,
      bestScore = 0, roundStartTime = 1000, lastHudScore = 1, gameOver = False,
      p_width = 800, p_height = 100, hud_gameOver = False, hud_score = 1, hud_bestScore = 0,
      isMounted = True,
      world = \<lparr>items = Map.empty, getItemThrows = False, setItemThrows = False,
                getItemCalls = 1, console = []\<rparr>\<rparr>"
  unfolding ex_falling_def ex_ticked_eq by simp

lemma ex_falling_frame:
  "gameOver (draw ex_js ex_tick ex_falling) = False"
  "obstacles (draw ex_js ex_tick ex_falling) =
     [\<lparr>ob_x = 700, ob_y = 182, ob_speed = 1.2, ob_size = 80, ob_drift = 0\<rparr>]"
  unfolding ex_falling_eq
  by (simp_all add: ex_tick_def ex_js_def draw_def drawFlowingLines_def updateScore_def updateObstacles_def
      spawnTick_def spawnObstacle_def headOf_def updateChain_def Let_def updateHud_def
      normalizeScore_def toFixed1_def pointerTarget_def followBody_def easeToward_def upt_1_5
      obstacleBody_def moveObstacle_def hits_iff headRadius_def offscreen_def p_random_def
      collisionBranch_def writeSessionBest_def power2_eq_square eval_nat_numeral)

theorem obstacle_removal_witness:
  "obstacleImage ex_falling \<noteq> None \<and> \<not> introOverlayActive ex_falling \<and>
   \<not> gameOver (draw ex_js ex_tick ex_falling) \<and>
   obstacles (draw ex_js ex_tick ex_falling) =
     [\<lparr>ob_x = 700, ob_y = 182, ob_speed = 1.2, ob_size = 80, ob_drift = 0\<rparr>] \<and>
   gameOver (draw ex_js ex_frame ex_playing) \<and>
   obstacles (stateAt ex_js [ex_tick, ex_tick] (draw ex_js ex_frame ex_playing) 2) =
     obstacles (draw ex_js ex_frame ex_playing)"
proof -
  have a: "obstacleImage ex_falling \<noteq> None \<and> \<not> introOverlayActive ex_falling \<and>
      \<not> gameOver (draw ex_js ex_tick ex_falling)"
    by (simp add: ex_falling_frame) (simp add: ex_falling_eq)
  have sp: "obstacles (spawnTick ex_tick ex_falling) = obstacles ex_falling"
    by (simp add: spawnTick_def ex_falling_eq ex_tick_def Let_def)
  have "obstacles (draw ex_js ex_tick ex_falling) =
        filter (\<lambda>ob. \<not> ob_y ob - ob_size ob / 2 > p_height ex_falling + 50)
          (map moveObstacle (obstacles (spawnTick ex_tick ex_falling)))"
    using obstacle_removal [of ex_falling ex_js ex_tick, THEN conjunct1] a by blast
  then have o: "obstacles (draw ex_js ex_tick ex_falling) =
     [\<lparr>ob_x = 700, ob_y = 182, ob_speed = 1.2, ob_size = 80, ob_drift = 0\<rparr>]"
    unfolding sp by (simp add: ex_falling_eq moveObstacle_def)
  have "obstacles (stateAt ex_js [ex_tick, ex_tick] (draw ex_js ex_frame ex_playing) 2) =
     obstacles (draw ex_js ex_frame ex_playing)"
    using obstacle_removal [of "draw ex_js ex_frame ex_playing" ex_js, THEN conjunct2] ex_collides
    by blast
  then show ?thesis using a o ex_collides by simp
qed

text \<open>
  Claim C5 as stated removes an obstacle exactly when its lower edge \<open>y + size / 2\<close> has
  passed the canvas height by a fixed margin. In the sample state, after the frame's move
  the first obstacle has its lower edge at 191.2 and the second at 222, both more than 50
  below the canvas height 100: the frame removes the first and keeps the second, whose
  lower edge is the further down of the two, so no margin on the lower edge describes it.
\<close>

theorem obstacle_removal_counterexample:
  "\<not> gameOver ex_falling \<and> \<not> gameOver (draw ex_js ex_tick ex_falling) \<and>
   map moveObstacle (obstacles ex_falling) =
     [\<lparr>ob_x = 100, ob_y = 171.2, ob_speed = 1.2, ob_size = 40, ob_drift = 0\<rparr>,
      \<lparr>ob_x = 700, ob_y = 182, ob_speed = 1.2, ob_size = 80, ob_drift = 0\<rparr>] \<and>
   obstacles (draw ex_js ex_tick ex_falling) =
     [\<lparr>ob_x = 700, ob_y = 182, ob_speed = 1.2, ob_size = 80, ob_drift = 0\<rparr>] \<and>
   p_height ex_falling + 50 <
     lowerEdge \<lparr>ob_x = 100, ob_y = 171.2, ob_speed = 1.2, ob_size = 40, ob_drift = 0\<rparr> \<and>
   lowerEdge \<lparr>ob_x = 100, ob_y = 171.2, ob_speed = 1.2, ob_size = 40, ob_drift = 0\<rparr> <
     lowerEdge \<lparr>ob_x = 700, ob_y = 182, ob_speed = 1.2, ob_size = 80, ob_drift = 0\<rparr>"
  by (simp add: ex_falling_frame) (simp add: ex_falling_eq moveObstacle_def lowerEdge_def)

subsection \<open>Reset and the intro invariant\<close>

lemma resetGame_fields [simp]:
  "obstacles (resetGame now u s) = []"
  "gameOver (resetGame now u s) = False"
  "score (resetGame now u s) = 0"
  "obstacleSpawnTimer (resetGame now u s) = 0"
  "nextObstacleDelay (resetGame now u s) = p_random 900 1600 u"
  "roundStartTime (resetGame now u s) = now"
  "lastHudScore (resetGame now u s) = - 1"
  "bestScore (resetGame now u s) = bestScore s"
  "world (resetGame now u s) = world s"
  "introOverlayActive (resetGame now u s) = introOverlayActive s"
  "obstacleImage (resetGame now u s) = obstacleImage s"
  "p_width (resetGame now u s) = p_width s"
  "p_height (resetGame now u s) = p_height s"
  "isMounted (resetGame now u s) = isMounted s"
  "segments (resetGame now u s) = segments (initSegments (p_width s) (p_height s) s)"
  by (simp_all add: resetGame_def Let_def initSegments_def)

lemma draw_intro:
  "introOverlayActive s \<Longrightarrow> updateObstacles B f s = s"
  "introOverlayActive s \<Longrightarrow> obstacles (draw B f s) = obstacles s"
  by (simp_all add: updateObstacles_idle draw_obstacles)

lemma step_introInv: "introInv s \<Longrightarrow> introInv (step B e s)"
  by (cases e)
    (auto simp: introInv_def draw_intro handleStartClick_def handleRetryClick_def
      setIntroOverlayState_def Let_def windowResized_def handleOrientation_def enableGyro_def
      split: if_splits)

lemma run_introInv: "introInv s \<Longrightarrow> introInv (run B evs s)"
  unfolding run_def by (induction evs arbitrary: s) (simp_all add: step_introInv)

lemma boot_introInv: "introInv (boot B w ld m vw vh now u)"
  by (simp add: introInv_def boot_def p_setup_def)

section \<open>The intro phase\<close>

text \<open>
  Claim C6. Whatever events follow the start-up of the sketch, whenever the intro overlay
  is active afterwards there is no obstacle. Entering the intro (the overlay switched on)
  empties the obstacle list; and a frame drawn while the overlay is active leaves the
  obstacle pass at once, so that nothing is spawned or moved, and the overlay stays.
\<close>

theorem intro_has_no_obstacles:
  "(introOverlayActive (run B evs (boot B w ld m vw vh now u)) \<longrightarrow>
      phase_of (run B evs (boot B w ld m vw vh now u)) = Intro \<and>
      obstacles (run B evs (boot B w ld m vw vh now u)) = []) \<and>
   (phase_of (setIntroOverlayState True u' s) = Intro \<and>
      obstacles (setIntroOverlayState True u' s) = []) \<and>
   (phase_of s = Intro \<longrightarrow>
      updateObstacles B f s = s \<and> obstacles (draw B f s) = obstacles s \<and>
      phase_of (draw B f s) = Intro)"
proof (intro conjI impI)
  assume a: "introOverlayActive (run B evs (boot B w ld m vw vh now u))"
  then show "phase_of (run B evs (boot B w ld m vw vh now u)) = Intro"
    by (simp add: phase_of_def)
  from run_introInv [OF boot_introInv, of B evs B w ld m vw vh now u] a
  show "obstacles (run B evs (boot B w ld m vw vh now u)) = []"
    by (simp add: introInv_def)
next
  show "phase_of (setIntroOverlayState True u' s) = Intro"
    and "obstacles (setIntroOverlayState True u' s) = []"
    by (simp_all add: phase_of_def setIntroOverlayState_def)
next
  assume "phase_of s = Intro"
  then have i: "introOverlayActive s" by (simp add: phase_of_def split: if_splits)
  then show "updateObstacles B f s = s" and "obstacles (draw B f s) = obstacles s"
    and "phase_of (draw B f s) = Intro"
    by (simp_all add: draw_intro phase_of_def)
qed

theorem intro_has_no_obstacles_witness:
  "introOverlayActive
     (run ex_js [SetIntroOverlay True 0, Draw ex_frame, Draw ex_tick]
        (boot ex_js ex_browser ex_loader False 1280 100 0 0)) \<and>
   obstacles
     (run ex_js [SetIntroOverlay True 0, Draw ex_frame, Draw ex_tick]
        (boot ex_js ex_browser ex_loader False 1280 100 0 0)) = [] \<and>
   phase_of ex_mounted = Intro \<and> obstacles (draw ex_js ex_frame ex_mounted) = []"
proof -
  have a: "introOverlayActive
     (run ex_js [SetIntroOverlay True 0, Draw ex_frame, Draw ex_tick]
        (boot ex_js ex_browser ex_loader False 1280 100 0 0))"
    by (simp add: run_def setIntroOverlayState_def)
  have p: "phase_of ex_mounted = Intro" by (simp add: phase_of_def ex_mounted_eq)
  note t = intro_has_no_obstacles [of ex_js "[SetIntroOverlay True 0, Draw ex_frame, Draw ex_tick]"
      ex_browser ex_loader False 1280 100 0 0 0 ex_mounted ex_frame]
  have "obstacles
     (run ex_js [SetIntroOverlay True 0, Draw ex_frame, Draw ex_tick]
        (boot ex_js ex_browser ex_loader False 1280 100 0 0)) = []"
    using t a by blast
  moreover have "obstacles (draw ex_js ex_frame ex_mounted) = obstacles ex_mounted"
    using t p by blast
  ultimately show ?thesis using a p by (simp add: ex_mounted_eq)
qed

subsection \<open>Repeated resets\<close>

lemma resetGame_eq:
  "resetGame now u s =
     s\<lparr>obstacles := [], obstacleSpawnTimer := 0, nextObstacleDelay := p_random 900 1600 u,
       score := 0, roundStartTime := now, lastHudScore := - 1, gameOver := False,
       segments :=
        [\<lparr>seg_x = p_width s / 2, seg_y = p_height s / 2, seg_easeFactor = 0.16\<rparr>,
         \<lparr>seg_x = p_width s / 2, seg_y = p_height s / 2, seg_easeFactor = 0.156\<rparr>,
         \<lparr>seg_x = p_width s / 2, seg_y = p_height s / 2, seg_easeFactor = 0.152\<rparr>,
         \<lparr>seg_x = p_width s / 2, seg_y = p_height s / 2, seg_easeFactor = 0.148\<rparr>,
         \<lparr>seg_x = p_width s / 2, seg_y = p_height s / 2, seg_easeFactor = 0.144\<rparr>],
       hud_gameOver := (if isMounted s then False else hud_gameOver s),
       hud_score := (if isMounted s then 0 else hud_score s),
       hud_bestScore := (if isMounted s then normalizeScore (Fin (bestScore s)) else hud_bestScore s)\<rparr>"
  by (cases "isMounted s") (simp_all add: resetGame_def Let_def initSegments_eq updateHud_def)

lemma resetGame_twice: "resetGame now u (resetGame now' u' s) = resetGame now u s"
  by (cases "isMounted s") (simp_all add: resetGame_eq)

lemma retryAll_last:
  "rs \<noteq> [] \<Longrightarrow> retryAll rs s = handleRetryClick (fst (last rs)) (snd (last rs)) s"
proof (induction rs arbitrary: s)
  case Nil
  then show ?case by simp
next
  case (Cons r rs)
  obtain now u where r: "r = (now, u)" by (cases r)
  show ?case
  proof (cases "rs = []")
    case True
    then show ?thesis by (simp add: retryAll_def r)
  next
    case False
    have "retryAll (r # rs) s = retryAll rs (handleRetryClick now u s)"
      by (simp add: retryAll_def r)
    also have "\<dots> = handleRetryClick (fst (last rs)) (snd (last rs)) (handleRetryClick now u s)"
      using Cons.IH [OF False] .
    also have "\<dots> = handleRetryClick (fst (last rs)) (snd (last rs)) s"
      by (simp add: handleRetryClick_def resetGame_twice)
    finally show ?thesis using False by simp
  qed
qed

lemma resetGame_modulo:
  "(resetGame now u s)\<lparr>nextObstacleDelay := d, roundStartTime := t\<rparr> =
   (resetGame now' u' s)\<lparr>nextObstacleDelay := d, roundStartTime := t\<rparr>"
  by (simp add: resetGame_eq)

lemma p_random_range: "0 \<le> u \<Longrightarrow> u < 1 \<Longrightarrow> lo \<le> hi \<Longrightarrow> lo \<le> p_random lo hi u \<and> p_random lo hi u \<le> hi"
proof -
  assume u: "0 \<le> u" "u < 1" and lh: "lo \<le> hi"
  have "0 \<le> u * (hi - lo)" using u lh by simp
  moreover have "u * (hi - lo) \<le> 1 * (hi - lo)" using u lh by (intro mult_right_mono) simp_all
  ultimately show ?thesis by (simp add: p_random_def)
qed

section \<open>Retry\<close>

text \<open>
  Claim C7. From every state in the GameOver phase, retry pressed any number of times
  (at least once), each press with a raw random sample in \<open>[0, 1)\<close>, gives a state in
  the Playing phase with score 0, no obstacle, the spawn timer at 0 with the delay drawn
  by the last press, between 900 and 1600, and five segments, all at the centre of the
  canvas. The state is the one a single press would give, that of the last press: presses
  differ only in the delay drawn and in the clock reading recorded as the start of the
  round. The best score is kept.
\<close>

theorem retry_gives_fresh_round:
  assumes "phase_of s = GameOver" and "rs \<noteq> []" and "\<forall>(now, u) \<in> set rs. 0 \<le> u \<and> u < 1"
  shows
   "phase_of (retryAll rs s) = Playing \<and>
    score (retryAll rs s) = 0 \<and>
    obstacles (retryAll rs s) = [] \<and>
    obstacleSpawnTimer (retryAll rs s) = 0 \<and>
    nextObstacleDelay (retryAll rs s) = p_random 900 1600 (snd (last rs)) \<and>
    900 \<le> nextObstacleDelay (retryAll rs s) \<and> nextObstacleDelay (retryAll rs s) \<le> 1600 \<and>
    length (segments (retryAll rs s)) = 5 \<and>
    (\<forall>sg \<in> set (segments (retryAll rs s)). seg_x sg = p_width s / 2 \<and> seg_y sg = p_height s / 2) \<and>
    bestScore (retryAll rs s) = bestScore s \<and>
    retryAll rs s = handleRetryClick (fst (last rs)) (snd (last rs)) s \<and>
    (\<forall>now u d t. (retryAll rs s)\<lparr>nextObstacleDelay := d, roundStartTime := t\<rparr> =
       (handleRetryClick now u s)\<lparr>nextObstacleDelay := d, roundStartTime := t\<rparr>)"
proof -
  note l = retryAll_last [OF assms(2), of s]
  have i: "\<not> introOverlayActive s" using assms(1) by (simp add: phase_of_def split: if_splits)
  have "last rs \<in> set rs" using assms(2) by simp
  then have u: "0 \<le> snd (last rs)" "snd (last rs) < 1"
    using assms(3) by (auto simp: case_prod_beta)
  have r: "900 \<le> p_random 900 1600 (snd (last rs)) \<and> p_random 900 1600 (snd (last rs)) \<le> 1600"
    using p_random_range [OF u, of 900 1600] by simp
  have m: "\<forall>now u d t. (retryAll rs s)\<lparr>nextObstacleDelay := d, roundStartTime := t\<rparr> =
       (handleRetryClick now u s)\<lparr>nextObstacleDelay := d, roundStartTime := t\<rparr>"
    unfolding l handleRetryClick_def by (intro allI) (rule resetGame_modulo)
  have "phase_of (retryAll rs s) = Playing \<and>
    score (retryAll rs s) = 0 \<and>
    obstacles (retryAll rs s) = [] \<and>
    obstacleSpawnTimer (retryAll rs s) = 0 \<and>
    nextObstacleDelay (retryAll rs s) = p_random 900 1600 (snd (last rs)) \<and>
    900 \<le> nextObstacleDelay (retryAll rs s) \<and> nextObstacleDelay (retryAll rs s) \<le> 1600 \<and>
    length (segments (retryAll rs s)) = 5 \<and>
    (\<forall>sg \<in> set (segments (retryAll rs s)). seg_x sg = p_width s / 2 \<and> seg_y sg = p_height s / 2) \<and>
    bestScore (retryAll rs s) = bestScore s"
    unfolding l handleRetryClick_def using i r
    by (simp add: phase_of_def initSegments_segments)
  then show ?thesis using l m by blast
qed

theorem retry_gives_fresh_round_witness:
  "phase_of (draw ex_js ex_frame ex_playing) = GameOver \<and>
   phase_of (retryAll [(5000, 1 / 2), (6000, 1 / 4)] (draw ex_js ex_frame ex_playing)) = Playing \<and>
   score (retryAll [(5000, 1 / 2), (6000, 1 / 4)] (draw ex_js ex_frame ex_playing)) = 0 \<and>
   obstacles (retryAll [(5000, 1 / 2), (6000, 1 / 4)] (draw ex_js ex_frame ex_playing)) = [] \<and>
   nextObstacleDelay (retryAll [(5000, 1 / 2), (6000, 1 / 4)] (draw ex_js ex_frame ex_playing)) = 1075 \<and>
   bestScore (retryAll [(5000, 1 / 2), (6000, 1 / 4)] (draw ex_js ex_frame ex_playing)) = 3.4"
proof -
  have p: "phase_of (draw ex_js ex_frame ex_playing) = GameOver"
    using ex_collides by (simp add: phase_of_def ex_playing_fields)
  have n: "[(5000, 1 / 2), (6000, 1 / 4)] \<noteq> ([] :: (real \<times> real) list)" by simp
  have u: "\<forall>(now, u) \<in> set [(5000 :: real, 1 / 2 :: real), (6000, 1 / 4)]. 0 \<le> u \<and> u < 1" by simp
  have b: "bestScore (draw ex_js ex_frame ex_playing) = 3.4"
    using draw_collision(2) [of ex_playing ex_js ex_frame] ex_collides normalizeScore_3400
    by (simp add: ex_playing_fields ex_frame_def)
  note t = retry_gives_fresh_round [OF p n u]
  note t1 = t [THEN conjunct1]
  note t2 = t [THEN conjunct2, THEN conjunct1]
  note t3 = t [THEN conjunct2, THEN conjunct2, THEN conjunct1]
  note t5 = t [THEN conjunct2, THEN conjunct2, THEN conjunct2, THEN conjunct2, THEN conjunct1]
  note t10 = t [THEN conjunct2, THEN conjunct2, THEN conjunct2, THEN conjunct2, THEN conjunct2, THEN conjunct2, THEN conjunct2, THEN conjunct2, THEN conjunct2, THEN conjunct1]
  show ?thesis
    unfolding t1 t2 t3 t5 t10 using p b by (simp add: p_random_def)
qed

subsection \<open>Images that are only drawn\<close>

lemma withDecor_fields [simp]:
  "isMounted (withDecor a b c d s) = isMounted s"
  "gameOver (withDecor a b c d s) = gameOver s"
  "segments (withDecor a b c d s) = segments s"
  "obstacles (withDecor a b c d s) = obstacles s"
  "obstacleImage (withDecor a b c d s) = obstacleImage s"
  "introOverlayActive (withDecor a b c d s) = introOverlayActive s"
  "p_height (withDecor a b c d s) = p_height s"
  by (simp_all add: withDecor_def)

lemma updateHud_withDecor:
  "updateHud g sc bs (withDecor a b c d s) = withDecor a b c d (updateHud g sc bs s)"
  by (simp add: updateHud_def withDecor_def split: option.split)










subsection \<open>A sketch without obstacle image\<close>






section \<open>Assets that fail to load\<close>







subsection \<open>The browser state\<close>

lemma sameGame_refl [simp]: "sameGame s s"
  by (simp add: sameGame_def)

lemma sameGame_world [simp]: "sameGame s (s\<lparr>world := w\<rparr>)"
  by (simp add: sameGame_def)

lemma sameGameD: "sameGame s t \<Longrightarrow> t = s\<lparr>world := world t\<rparr>"
  by (simp add: sameGame_def)

lemma sameGame_fields:
  assumes "sameGame s t"
  shows "gameOver t = gameOver s" "score t = score s" "bestScore t = bestScore s"
    "obstacles t = obstacles s" "segments t = segments s" "hud_score t = hud_score s"
    "hud_bestScore t = hud_bestScore s" "hud_gameOver t = hud_gameOver s"
  by (subst sameGameD [OF assms], simp)+

lemma updateHud_world:
  "updateHud g sc b (s\<lparr>world := w\<rparr>) = (updateHud g sc b s)\<lparr>world := w\<rparr>"
  by (simp add: updateHud_def split: option.split)

lemma world_last:
  "s\<lparr>world := w, obstacles := xs\<rparr> = s\<lparr>obstacles := xs, world := w\<rparr>"
  "s\<lparr>world := w, gameOver := g\<rparr> = s\<lparr>gameOver := g, world := w\<rparr>"
  "s\<lparr>world := w, score := x\<rparr> = s\<lparr>score := x, world := w\<rparr>"
  "s\<lparr>world := w, bestScore := x\<rparr> = s\<lparr>bestScore := x, world := w\<rparr>"
  by simp_all

lemma collisionBranch_world_update:
  "collisionBranch B (s\<lparr>world := w\<rparr>) =
     (collisionBranch B s)\<lparr>world :=
        (if normalizeScore (Fin (score s)) > bestScore s
         then writeSessionBest B (normalizeScore (Fin (score s))) w else w)\<rparr>"
  by (simp add: collisionBranch_def Let_def world_last updateHud_world)

lemma obstacleBody_sameGame:
  "sameGame (obstacleBody B h i s) (obstacleBody B h i (s\<lparr>world := w\<rparr>))"
proof (cases "gameOver s")
  case True
  then show ?thesis by (simp add: obstacleBody_gameOver)
next
  case False
  note ng = this
  show ?thesis
  proof (cases "i < length (obstacles s)")
    case True
    show ?thesis
    proof (cases "hitBy h (obstacles s ! i)")
      case True
      have "obstacleBody B h i (s\<lparr>world := w\<rparr>) =
          collisionBranch B ((s\<lparr>obstacles := (obstacles s)[i := moveObstacle (obstacles s ! i)]\<rparr>)\<lparr>world := w\<rparr>)"
        using obstacleBody_hit [of i "s\<lparr>world := w\<rparr>" h B] ng True \<open>i < length (obstacles s)\<close>
        by (simp add: world_last)
      then show ?thesis
        using obstacleBody_hit [of i s h B] ng True \<open>i < length (obstacles s)\<close>
        by (simp add: world_last collisionBranch_world_update sameGame_def)
    next
      case False
      then show ?thesis
        using obstacleBody_miss [of s h i B] obstacleBody_miss [of "s\<lparr>world := w\<rparr>" h i B] ng True
        by (simp add: world_last sameGame_def)
    qed
  next
    case False
    then show ?thesis
      by (cases h)
        (simp_all add: sameGame_def obstacleBody_def Let_def world_last collisionBranch_world_update)
  qed
qed

lemma obstacleLoop_sameGame:
  "sameGame (obstacleLoop B h n s) (obstacleLoop B h n (s\<lparr>world := w\<rparr>))"
proof (induction n arbitrary: s w)
  case 0
  then show ?case by simp
next
  case (Suc n)
  from sameGameD [OF obstacleBody_sameGame [of B h n s w]]
  obtain w' where b: "obstacleBody B h n (s\<lparr>world := w\<rparr>) = (obstacleBody B h n s)\<lparr>world := w'\<rparr>"
    by blast
  show ?case using Suc [of "obstacleBody B h n s" w'] by (simp add: b)
qed

lemma spawnTick_world: "spawnTick f (s\<lparr>world := w\<rparr>) = (spawnTick f s)\<lparr>world := w\<rparr>"
  by (simp add: spawnTick_def spawnObstacle_def Let_def)

lemma updateObstacles_sameGame:
  "sameGame (updateObstacles B f s) (updateObstacles B f (s\<lparr>world := w\<rparr>))"
  using obstacleLoop_sameGame [of B "headOf s" "length (obstacles (spawnTick f s))" "spawnTick f s" w]
  by (auto simp add: updateObstacles_def Let_def spawnTick_world headOf_def)

lemma updateScore_world: "updateScore f (s\<lparr>world := w\<rparr>) = (updateScore f s)\<lparr>world := w\<rparr>"
  by (simp add: updateScore_eq)

lemma drawFlowingLines_world: "drawFlowingLines (s\<lparr>world := w\<rparr>) = (drawFlowingLines s)\<lparr>world := w\<rparr>"
  by (simp add: drawFlowingLines_def)

lemma updateChain_world: "updateChain f (s\<lparr>world := w\<rparr>) = (updateChain f s)\<lparr>world := w\<rparr>"
  by (simp add: updateChain_def Let_def)

lemma draw_sameGame: "sameGame (draw B f s) (draw B f (s\<lparr>world := w\<rparr>))"
proof -
  let ?S = "updateScore f (drawFlowingLines s)"
  from sameGameD [OF updateObstacles_sameGame [of B f ?S w]]
  obtain w' where u: "updateObstacles B f (?S\<lparr>world := w\<rparr>) = (updateObstacles B f ?S)\<lparr>world := w'\<rparr>"
    by blast
  show ?thesis
    by (simp add: draw_eq drawFlowingLines_world updateScore_world u updateChain_world)
qed

lemma writeSessionBest_calls [simp]:
  "getItemCalls (writeSessionBest B v w) = getItemCalls w"
  by (simp add: writeSessionBest_def)

lemma writeSessionBest_fails:
  "setItemThrows w \<Longrightarrow> items (writeSessionBest B v w) = items w \<and> setItemThrows (writeSessionBest B v w)"
  by (simp add: writeSessionBest_def)

lemma draw_world_cases:
  "world (draw B f s) = world s \<or> (\<exists>v. world (draw B f s) = writeSessionBest B v (world s))"
proof (cases "gameOver s")
  case True
  then show ?thesis by (simp add: draw_over)
next
  case False
  show ?thesis
  proof (cases "gameOver (draw B f s)")
    case True
    from draw_collision(3) [OF False True] show ?thesis by (auto split: if_splits)
  next
    case False
    then show ?thesis by (simp add: draw_playing(3))
  qed
qed

lemma draw_getItemCalls [simp]: "getItemCalls (world (draw B f s)) = getItemCalls (world s)"
  using draw_world_cases [of B f s] by auto

lemma step_getItemCalls: "getItemCalls (world (step B e s)) = getItemCalls (world s)"
  by (cases e)
    (simp_all add: handleStartClick_def handleRetryClick_def setupGyroSensor_def
      setIntroOverlayState_def Let_def windowResized_def handleOrientation_def enableGyro_def)

lemma run_getItemCalls: "getItemCalls (world (run B evs s)) = getItemCalls (world s)"
  unfolding run_def by (induction evs arbitrary: s) (simp_all add: step_getItemCalls)

lemma preload_world:
  "getItemCalls (world (preload ld s)) = getItemCalls (world s)"
  "bestScore (preload ld s) = bestScore s"
  by (simp_all add: preload_def loadImage_def Let_def)

lemma mount_fields:
  "bestScore (mount B w) = normalizeScore (Fin (fst (readSessionBest B w)))"
  "hud_bestScore (mount B w) = normalizeScore (Fin (fst (readSessionBest B w)))"
  "getItemCalls (world (mount B w)) = Suc (getItemCalls w)"
  by (simp_all add: mount_def readSessionBest_def Let_def split_beta)

lemma boot_fields:
  "bestScore (boot B w ld m vw vh now u) = bestScore (mount B w)"
  "getItemCalls (world (boot B w ld m vw vh now u)) = Suc (getItemCalls w)"
  by (simp_all add: boot_def p_setup_def preload_world mount_fields)

lemma readSessionBest_default:
  assumes "getItemThrows w \<or> items w BEST_SCORE_KEY = None \<or>
    (\<exists>raw. items w BEST_SCORE_KEY = Some raw \<and> (raw = [] \<or> js_Number B raw \<notin> range Fin))"
  shows "fst (readSessionBest B w) = 0"
  using assms by (auto simp: readSessionBest_def Let_def split: option.splits jsnum.splits)

lemma normalizeScore_0 [simp]: "normalizeScore (Fin 0) = 0"
  by (simp add: normalizeScore_def toFixed1_def)

lemma readSessionBest_number:
  "\<not> getItemThrows w \<Longrightarrow> items w BEST_SCORE_KEY = Some raw \<Longrightarrow> raw \<noteq> [] \<Longrightarrow>
   js_Number B raw = Fin v \<Longrightarrow> fst (readSessionBest B w) = v"
  by (simp add: readSessionBest_def Let_def)

section \<open>The stored best score\<close>

text \<open>
  Claim C9. The session storage is read once, when the component is mounted: after
  start-up and any events whatever, the count of reads is one more than before. The best
  score the sketch starts with is the stored number rounded to one decimal, and it is 0
  when reading throws, when nothing is stored under the key, when the stored text is
  empty, and when the text is no finite number. What a frame does to the game does not
  depend on the browser state; when the storage refuses writes, a frame leaves the stored
  items as they are, and at the end of a round the best score in memory is still raised
  to the larger of the previous best score and the score.
\<close>

theorem best_score_storage:
  "getItemCalls (world (run B evs (boot B w ld m vw vh now u))) = Suc (getItemCalls w) \<and>
   bestScore (boot B w ld m vw vh now u) = normalizeScore (Fin (fst (readSessionBest B w))) \<and>
   (getItemThrows w \<or> items w BEST_SCORE_KEY = None \<or>
    (\<exists>raw. items w BEST_SCORE_KEY = Some raw \<and> (raw = [] \<or> (\<forall>v. js_Number B raw \<noteq> Fin v))) \<longrightarrow>
      bestScore (boot B w ld m vw vh now u) = 0) \<and>
   (\<forall>raw v. \<not> getItemThrows w \<and> items w BEST_SCORE_KEY = Some raw \<and> raw \<noteq> [] \<and>
      js_Number B raw = Fin v \<longrightarrow>
      bestScore (boot B w ld m vw vh now u) = normalizeScore (Fin v)) \<and>
   (\<forall>w'. sameGame (draw B f s) (draw B f (s\<lparr>world := w'\<rparr>))) \<and>
   (setItemThrows (world s) \<longrightarrow>
      items (world (draw B f s)) = items (world s) \<and> setItemThrows (world (draw B f s))) \<and>
   (setItemThrows (world s) \<and> \<not> gameOver s \<and> gameOver (draw B f s) \<longrightarrow>
      bestScore (draw B f s) = max (bestScore s) (score (draw B f s)))"
proof (intro conjI allI impI)
  show "getItemCalls (world (run B evs (boot B w ld m vw vh now u))) = Suc (getItemCalls w)"
    by (simp add: run_getItemCalls boot_fields)
  show "bestScore (boot B w ld m vw vh now u) = normalizeScore (Fin (fst (readSessionBest B w)))"
    by (simp add: boot_fields mount_fields)
next
  assume "getItemThrows w \<or> items w BEST_SCORE_KEY = None \<or>
    (\<exists>raw. items w BEST_SCORE_KEY = Some raw \<and> (raw = [] \<or> (\<forall>v. js_Number B raw \<noteq> Fin v)))"
  then have "getItemThrows w \<or> items w BEST_SCORE_KEY = None \<or>
    (\<exists>raw. items w BEST_SCORE_KEY = Some raw \<and> (raw = [] \<or> js_Number B raw \<notin> range Fin))"
    by auto
  from readSessionBest_default [OF this]
  show "bestScore (boot B w ld m vw vh now u) = 0"
    by (simp add: boot_fields mount_fields)
next
  fix raw v
  assume "\<not> getItemThrows w \<and> items w BEST_SCORE_KEY = Some raw \<and> raw \<noteq> [] \<and>
      js_Number B raw = Fin v"
  then have "fst (readSessionBest B w) = v" by (simp add: readSessionBest_number)
  then show "bestScore (boot B w ld m vw vh now u) = normalizeScore (Fin v)"
    by (simp add: boot_fields mount_fields)
next
  fix w'
  show "sameGame (draw B f s) (draw B f (s\<lparr>world := w'\<rparr>))" by (rule draw_sameGame)
next
  assume t: "setItemThrows (world s)"
  show "items (world (draw B f s)) = items (world s)" and "setItemThrows (world (draw B f s))"
    using draw_world_cases [of B f s] writeSessionBest_fails [OF t, of B] t by auto
next
  assume "setItemThrows (world s) \<and> \<not> gameOver s \<and> gameOver (draw B f s)"
  then show "bestScore (draw B f s) = max (bestScore s) (score (draw B f s))"
    using draw_collision(1,2) [of s B f] by simp
qed

theorem best_score_storage_witness:
  "getItemCalls (world (run ex_js [Draw ex_tick, RetryClick 5000 0, Draw ex_frame]
      (boot ex_js ex_browser_text ex_loader False 1280 100 0 0))) = 1 \<and>
   items ex_browser_text BEST_SCORE_KEY = Some ''abc'' \<and>
   bestScore (boot ex_js ex_browser_text ex_loader False 1280 100 0 0) = 0 \<and>
   getItemThrows ex_browser_closed \<and>
   bestScore (boot ex_js ex_browser_closed ex_loader False 1280 100 0 0) = 0 \<and>
   setItemThrows (world ex_full) \<and> \<not> gameOver ex_full \<and> gameOver (draw ex_js ex_frame ex_full) \<and>
   bestScore (draw ex_js ex_frame ex_full) = 3.4 \<and>
   items (world (draw ex_js ex_frame ex_full)) BEST_SCORE_KEY = None"
proof -
  note t1 = best_score_storage [of ex_js "[Draw ex_tick, RetryClick 5000 0, Draw ex_frame]"
      ex_browser_text ex_loader False 1280 100 0 0 ex_frame ex_playing]
  note t2 = best_score_storage [of ex_js "[]" ex_browser_closed ex_loader False 1280 100 0 0
      ex_frame ex_full]
  have c: "getItemCalls (world (run ex_js [Draw ex_tick, RetryClick 5000 0, Draw ex_frame]
      (boot ex_js ex_browser_text ex_loader False 1280 100 0 0))) = 1"
    using t1 [THEN conjunct1] by (simp add: ex_browser_text_def ex_browser_def)
  have i: "items ex_browser_text BEST_SCORE_KEY = Some ''abc''"
    by (simp add: ex_browser_text_def)
  have n: "\<forall>v. js_Number ex_js ''abc'' \<noteq> Fin v" by (simp add: ex_js_def)
  have b1: "bestScore (boot ex_js ex_browser_text ex_loader False 1280 100 0 0) = 0"
    using t1 [THEN conjunct2, THEN conjunct2, THEN conjunct1] i n by simp
  have g: "getItemThrows ex_browser_closed" by (simp add: ex_browser_closed_def)
  have b2: "bestScore (boot ex_js ex_browser_closed ex_loader False 1280 100 0 0) = 0"
    using t2 [THEN conjunct2, THEN conjunct2, THEN conjunct1] g by simp
  have f: "setItemThrows (world ex_full)" "\<not> gameOver ex_full" "bestScore ex_full = 0"
    "items (world ex_full) = Map.empty"
    by (simp_all add: ex_full_def ex_playing_fields)
  have "sameGame (draw ex_js ex_frame ex_playing) (draw ex_js ex_frame ex_full)"
    using t1 [THEN conjunct2, THEN conjunct2, THEN conjunct2, THEN conjunct2, THEN conjunct1,
        THEN spec, of "world ex_full"]
    by (simp add: ex_full_def)
  note sg = sameGame_fields [OF this]
  have go: "gameOver (draw ex_js ex_frame ex_full)" using sg(1) ex_collides by simp
  have sc: "score (draw ex_js ex_frame ex_full) = 3.4"
    using sg(2) draw_collision(1) [of ex_playing ex_js ex_frame] ex_collides normalizeScore_3400
    by (simp add: ex_playing_fields ex_frame_def)
  have bs: "bestScore (draw ex_js ex_frame ex_full) = 3.4"
    using t2 [THEN conjunct2, THEN conjunct2, THEN conjunct2, THEN conjunct2, THEN conjunct2,
        THEN conjunct2] f go sc
    by simp
  have it: "items (world (draw ex_js ex_frame ex_full)) BEST_SCORE_KEY = None"
    using t2 [THEN conjunct2, THEN conjunct2, THEN conjunct2, THEN conjunct2, THEN conjunct2,
        THEN conjunct1] f
    by simp
  show ?thesis using c i b1 g b2 f(1,2) go bs it by simp
qed

end
